theory Spec2Isabelle
  imports Main "HOL-Library.AList"
begin

section \<open>Common vocabulary\<close>

text \<open>
  A failed \<^verbatim>\<open>check(...)\<close> of the engine is fatal: the process stops. The model returns
  it as the left injection of a sum, so that every assertion of the source is a branch.
  \<open>InvalidPointer\<close> is the dereference of a null pointer or of a pointer to an object that
  is gone, which the source does not guard against.
  Messages written with \<^verbatim>\<open>UE_LOG\<close> are collected as values, one constructor per call site.
\<close>

datatype error = AssertionFailed | InvalidPointer

datatype log_event =
    Log_FilterPolarityConflict bool
  | Log_ComponentArrayHeapUsage nat
  | Log_ProxyHeapUsage nat

text \<open>Raw object pointers of the engine are addresses; address \<open>0\<close> is \<^verbatim>\<open>nullptr\<close>.\<close>

type_synonym ptr = nat

section \<open>FilterList\<close>

text \<open>
  \<^verbatim>\<open>EGP::FilterList<T, CompareFn>\<close> of \<^verbatim>\<open>EGP_CustomRenderPasses.h\<close>: the optional flag
  \<^verbatim>\<open>isWhitelist\<close> and the array \<^verbatim>\<open>elements\<close>. The comparator is a parameter of each
  operation that uses it.
\<close>

record 'a FilterList =
  isWhitelist :: "bool option"
  elements :: "'a list"

definition FilterList_new :: "bool option \<Rightarrow> 'a FilterList" where
  "FilterList_new isWhitelist0 = \<lparr> isWhitelist = isWhitelist0, elements = [] \<rparr>"

text \<open>The loop of \<^verbatim>\<open>IsAllowed\<close>, which leaves at the first element the comparator matches.\<close>

fun isListed :: "('a \<Rightarrow> 'a \<Rightarrow> bool) \<Rightarrow> 'a \<Rightarrow> 'a list \<Rightarrow> bool" where
  "isListed Comparator t [] = False"
| "isListed Comparator t (element # rest) =
     (if Comparator element t then True else isListed Comparator t rest)"

definition IsAllowed :: "('a \<Rightarrow> 'a \<Rightarrow> bool) \<Rightarrow> 'a FilterList \<Rightarrow> 'a \<Rightarrow> bool" where
  "IsAllowed Comparator f t =
     (case isWhitelist f of
        None \<Rightarrow> True
      | Some w \<Rightarrow> (isListed Comparator t (elements f) = w))"

definition IsAWhitelist :: "'a FilterList \<Rightarrow> bool option" where
  "IsAWhitelist f = isWhitelist f"

definition AddBlacklisted :: "'a \<Rightarrow> 'a FilterList \<Rightarrow> error + 'a FilterList" where
  "AddBlacklisted t f =
     (if isWhitelist f = Some True then Inl AssertionFailed
      else Inr (f\<lparr> isWhitelist := Some False, elements := elements f @ [t] \<rparr>))"

definition AddWhitelisted :: "'a \<Rightarrow> 'a FilterList \<Rightarrow> error + 'a FilterList" where
  "AddWhitelisted t f =
     (if isWhitelist f = Some False then Inl AssertionFailed
      else Inr (f\<lparr> isWhitelist := Some True, elements := elements f @ [t] \<rparr>))"

definition Remove :: "('a \<Rightarrow> 'a \<Rightarrow> bool) \<Rightarrow> 'a \<Rightarrow> 'a FilterList \<Rightarrow> 'a FilterList" where
  "Remove Comparator t f = f\<lparr> elements := filter (\<lambda>t2. \<not> Comparator t t2) (elements f) \<rparr>"

definition Configure :: "bool \<Rightarrow> 'a FilterList \<Rightarrow> 'a FilterList" where
  "Configure isWhitelist0 f = f\<lparr> isWhitelist := Some isWhitelist0 \<rparr>"

definition Clear :: "bool option \<Rightarrow> 'a FilterList \<Rightarrow> 'a FilterList" where
  "Clear isNowWhitelist f = f\<lparr> elements := [], isWhitelist := isNowWhitelist \<rparr>"

definition GetSize :: "'a FilterList \<Rightarrow> nat" where
  "GetSize f = length (elements f)"

section \<open>Filter mutation: the commands of U\_EGP\_ViewFilter\<close>

text \<open>
  The lambda \<^verbatim>\<open>updateFilter\<close> of \<^verbatim>\<open>U_EGP_ViewFilter::UpdateFilterList\<close>, applied to one
  copy of a filter. It returns the filter and what it logged; \<open>Inl\<close> is a failed
  \<^verbatim>\<open>check\<close> inside \<^verbatim>\<open>AddWhitelisted\<close> or \<^verbatim>\<open>AddBlacklisted\<close>.
\<close>

definition updateFilter ::
  "('a \<Rightarrow> 'a \<Rightarrow> bool) \<Rightarrow> 'a \<Rightarrow> bool \<Rightarrow> bool \<Rightarrow> 'a FilterList
     \<Rightarrow> error + ('a FilterList \<times> log_event list)" where
  "updateFilter Comparator element isAdding isAddingAsWhitelist f =
     (if isAdding \<and> IsAWhitelist f \<noteq> None \<and> IsAWhitelist f \<noteq> Some isAddingAsWhitelist
      then Inr (f, [Log_FilterPolarityConflict isAddingAsWhitelist])
      else if isAdding then
        (if isAddingAsWhitelist
         then (case AddWhitelisted element f of Inl e \<Rightarrow> Inl e | Inr f' \<Rightarrow> Inr (f', []))
         else (case AddBlacklisted element f of Inl e \<Rightarrow> Inl e | Inr f' \<Rightarrow> Inr (f', [])))
      else Inr (Remove Comparator element f, []))"

text \<open>
  The three closures that \<^verbatim>\<open>UpdateFilterList\<close>, \<^verbatim>\<open>ClearFilterList\<close> and
  \<^verbatim>\<open>ConfigureFilterList\<close> hand to the render-command queue and to the game-thread task
  queue, with the values they capture.
\<close>

datatype 'a filter_command =
    UpdateFilter 'a bool bool
  | ClearFilter
  | ConfigureFilter bool

fun run_filter_command ::
  "('a \<Rightarrow> 'a \<Rightarrow> bool) \<Rightarrow> 'a filter_command \<Rightarrow> 'a FilterList
     \<Rightarrow> error + ('a FilterList \<times> log_event list)" where
  "run_filter_command Comparator (UpdateFilter element isAdding isAddingAsWhitelist) f =
     updateFilter Comparator element isAdding isAddingAsWhitelist f"
| "run_filter_command Comparator ClearFilter f = Inr (Clear None f, [])"
| "run_filter_command Comparator (ConfigureFilter makeWhitelist) f =
     Inr (Configure makeWhitelist f, [])"

text \<open>A queue of such commands, run in order on one copy; a failed check stops the run.\<close>

fun run_filter_commands ::
  "('a \<Rightarrow> 'a \<Rightarrow> bool) \<Rightarrow> 'a filter_command list \<Rightarrow> 'a FilterList
     \<Rightarrow> error + ('a FilterList \<times> log_event list)" where
  "run_filter_commands Comparator [] f = Inr (f, [])"
| "run_filter_commands Comparator (c # cs) f =
     (case run_filter_command Comparator c f of
        Inl e \<Rightarrow> Inl e
      | Inr (f', l) \<Rightarrow>
          (case run_filter_commands Comparator cs f' of
             Inl e \<Rightarrow> Inl e
           | Inr (f'', l') \<Rightarrow> Inr (f'', l @ l')))"

text \<open>
  The two copies of one filter with the two queues that carry its mutations across
  threads. \<^verbatim>\<open>UpdateFilterList\<close> always enqueues the closure for the render-thread copy;
  the game-thread copy is updated at once on the game thread and through a task otherwise.
\<close>

record 'a FilterCopies =
  filter_GT :: "'a FilterList"
  filter_RT :: "'a FilterList"
  renderCommands :: "'a filter_command list"
  gameThreadTasks :: "'a filter_command list"
  filterLog :: "log_event list"

definition dispatch_filter_command ::
  "bool \<Rightarrow> ('a \<Rightarrow> 'a \<Rightarrow> bool) \<Rightarrow> 'a filter_command \<Rightarrow> 'a FilterCopies
     \<Rightarrow> error + 'a FilterCopies" where
  "dispatch_filter_command gThread Comparator c s =
     (let s1 = s\<lparr> renderCommands := renderCommands s @ [c] \<rparr>
      in if gThread
         then (case run_filter_command Comparator c (filter_GT s1) of
                 Inl e \<Rightarrow> Inl e
               | Inr (f', l) \<Rightarrow> Inr (s1\<lparr> filter_GT := f', filterLog := filterLog s1 @ l \<rparr>))
         else Inr (s1\<lparr> gameThreadTasks := gameThreadTasks s1 @ [c] \<rparr>))"

definition UpdateFilterList ::
  "bool \<Rightarrow> ('a \<Rightarrow> 'a \<Rightarrow> bool) \<Rightarrow> 'a \<Rightarrow> bool \<Rightarrow> bool \<Rightarrow> 'a FilterCopies
     \<Rightarrow> error + 'a FilterCopies" where
  "UpdateFilterList gThread Comparator element isAdding isAddingAsWhitelist s =
     dispatch_filter_command gThread Comparator
       (UpdateFilter element isAdding isAddingAsWhitelist) s"

definition ClearFilterList ::
  "bool \<Rightarrow> ('a \<Rightarrow> 'a \<Rightarrow> bool) \<Rightarrow> 'a FilterCopies \<Rightarrow> error + 'a FilterCopies" where
  "ClearFilterList gThread Comparator s = dispatch_filter_command gThread Comparator ClearFilter s"

definition ConfigureFilterList ::
  "bool \<Rightarrow> ('a \<Rightarrow> 'a \<Rightarrow> bool) \<Rightarrow> bool \<Rightarrow> 'a FilterCopies \<Rightarrow> error + 'a FilterCopies" where
  "ConfigureFilterList gThread Comparator makeWhitelist s =
     dispatch_filter_command gThread Comparator (ConfigureFilter makeWhitelist) s"

subsection \<open>The polarity under which an element was added\<close>

text \<open>
  The source stores bare elements. To speak of the polarity an element was added with,
  the same operations are run on elements paired with the flag \<^verbatim>\<open>isAddingAsWhitelist\<close> of
  the call that added them; the comparator looks at the element only, so the run on pairs
  is the run on bare elements with a label attached.
\<close>

definition labelled_Comparator :: "('a \<Rightarrow> 'a \<Rightarrow> bool) \<Rightarrow> 'a \<times> bool \<Rightarrow> 'a \<times> bool \<Rightarrow> bool" where
  "labelled_Comparator Comparator x y = Comparator (fst x) (fst y)"

fun label_command :: "'a filter_command \<Rightarrow> ('a \<times> bool) filter_command" where
  "label_command (UpdateFilter element isAdding isAddingAsWhitelist) =
     UpdateFilter (element, isAddingAsWhitelist) isAdding isAddingAsWhitelist"
| "label_command ClearFilter = ClearFilter"
| "label_command (ConfigureFilter makeWhitelist) = ConfigureFilter makeWhitelist"

definition unlabel :: "('a \<times> bool) FilterList \<Rightarrow> 'a FilterList" where
  "unlabel f = \<lparr> isWhitelist = isWhitelist f, elements = map fst (elements f) \<rparr>"

text \<open>A list holds both polarities when one element was added as whitelisted and another as blacklisted.\<close>

definition holds_both_polarities :: "('a \<times> bool) FilterList \<Rightarrow> bool" where
  "holds_both_polarities f =
     (list_ex (\<lambda>x. snd x) (elements f) \<and> list_ex (\<lambda>x. \<not> snd x) (elements f))"

text \<open>Every element carries the polarity the list has now.\<close>

definition single_polarity :: "('a \<times> bool) FilterList \<Rightarrow> bool" where
  "single_polarity f = list_all (\<lambda>x. isWhitelist f = Some (snd x)) (elements f)"

text \<open>A \<^verbatim>\<open>Configure\<close> that changes the mode of a list that has elements.\<close>

fun flips_polarity :: "'a filter_command \<Rightarrow> 'b FilterList \<Rightarrow> bool" where
  "flips_polarity (ConfigureFilter makeWhitelist) f =
     (elements f \<noteq> [] \<and> isWhitelist f \<noteq> Some makeWhitelist)"
| "flips_polarity _ f = False"

fun never_flips ::
  "('a \<Rightarrow> 'a \<Rightarrow> bool) \<Rightarrow> 'a filter_command list \<Rightarrow> 'a FilterList \<Rightarrow> bool" where
  "never_flips Comparator [] f = True"
| "never_flips Comparator (c # cs) f =
     (\<not> flips_polarity c f \<and>
      (case run_filter_command Comparator c f of
         Inl e \<Rightarrow> True
       | Inr (f', l) \<Rightarrow> never_flips Comparator cs f'))"

text \<open>The commands that come from \<^verbatim>\<open>ConfigureFilterList\<close>; the others add, remove or clear.\<close>

fun is_configure :: "'a filter_command \<Rightarrow> bool" where
  "is_configure (ConfigureFilter makeWhitelist) = True"
| "is_configure _ = False"

section \<open>U\_EGP\_ViewFilter\<close>

text \<open>
  The engine's view objects, reduced to the fields the filter reads. The pointer
  \<^verbatim>\<open>view.Family\<close> is followed in the model: a view holds its family.
\<close>

record FSceneViewExtensionContext =
  ctx_Scene :: ptr
  ctx_Viewport :: ptr

record FSceneViewFamily =
  Scene :: ptr
  RenderTarget :: ptr

record FSceneView =
  Family :: FSceneViewFamily
  PlayerIndex :: int
  ViewActor :: ptr

record ViewFilter =
  ExcludeAll :: bool
  byRenderTarget_GT :: "ptr FilterList"
  byRenderTarget_RT :: "ptr FilterList"
  byScene_GT :: "ptr FilterList"
  byScene_RT :: "ptr FilterList"
  byViewport_GT :: "ptr FilterList"
  byViewport_RT :: "ptr FilterList"
  byViewActor_GT :: "ptr FilterList"
  byViewActor_RT :: "ptr FilterList"
  byPlayerIndex_GT :: "int FilterList"
  byPlayerIndex_RT :: "int FilterList"

text \<open>
  The five overloads of \<^verbatim>\<open>ShouldRenderFor\<close>. \<open>rThread\<close> and \<open>gThread\<close> are what
  \<^verbatim>\<open>IsInRenderingThread()\<close> and \<^verbatim>\<open>IsInGameThread()\<close> answer on the calling thread. All the
  lists use \<^verbatim>\<open>std::equal_to\<close>.
\<close>

definition ShouldRenderFor_Viewport :: "bool \<Rightarrow> bool \<Rightarrow> ViewFilter \<Rightarrow> ptr \<Rightarrow> error + bool" where
  "ShouldRenderFor_Viewport rThread gThread vf viewport =
     (if \<not> (rThread \<or> gThread) then Inl AssertionFailed
      else Inr (\<not> ExcludeAll vf \<and>
                ((rThread \<and> IsAllowed (=) (byViewport_RT vf) viewport) \<or>
                 (gThread \<and> IsAllowed (=) (byViewport_GT vf) viewport))))"

definition ShouldRenderFor_Scene :: "bool \<Rightarrow> bool \<Rightarrow> ViewFilter \<Rightarrow> ptr \<Rightarrow> error + bool" where
  "ShouldRenderFor_Scene rThread gThread vf scene =
     (if \<not> (rThread \<or> gThread) then Inl AssertionFailed
      else Inr (\<not> ExcludeAll vf \<and>
                ((rThread \<and> IsAllowed (=) (byScene_RT vf) scene) \<or>
                 (gThread \<and> IsAllowed (=) (byScene_GT vf) scene))))"

definition ShouldRenderFor_Context ::
  "bool \<Rightarrow> bool \<Rightarrow> ViewFilter \<Rightarrow> FSceneViewExtensionContext \<Rightarrow> error + bool" where
  "ShouldRenderFor_Context rThread gThread vf sveContext =
     (case ShouldRenderFor_Scene rThread gThread vf (ctx_Scene sveContext) of
        Inl e \<Rightarrow> Inl e
      | Inr False \<Rightarrow> Inr False
      | Inr True \<Rightarrow> ShouldRenderFor_Viewport rThread gThread vf (ctx_Viewport sveContext))"

definition ShouldRenderFor_ViewFamily ::
  "bool \<Rightarrow> bool \<Rightarrow> ViewFilter \<Rightarrow> FSceneViewFamily \<Rightarrow> error + bool" where
  "ShouldRenderFor_ViewFamily rThread gThread vf viewFamily =
     (if \<not> (rThread \<or> gThread) then Inl AssertionFailed
      else Inr (\<not> ExcludeAll vf \<and>
                ((rThread \<and> IsAllowed (=) (byScene_RT vf) (Scene viewFamily)) \<or>
                 (gThread \<and> IsAllowed (=) (byScene_GT vf) (Scene viewFamily))) \<and>
                ((rThread \<and> IsAllowed (=) (byRenderTarget_RT vf) (RenderTarget viewFamily)) \<or>
                 (gThread \<and> IsAllowed (=) (byRenderTarget_GT vf) (RenderTarget viewFamily)))))"

definition ShouldRenderFor_View :: "bool \<Rightarrow> bool \<Rightarrow> ViewFilter \<Rightarrow> FSceneView \<Rightarrow> error + bool" where
  "ShouldRenderFor_View rThread gThread vf view =
     (if \<not> (rThread \<or> gThread) then Inl AssertionFailed
      else (case ShouldRenderFor_ViewFamily rThread gThread vf (Family view) of
              Inl e \<Rightarrow> Inl e
            | Inr False \<Rightarrow> Inr False
            | Inr True \<Rightarrow>
                Inr (((rThread \<and> IsAllowed (=) (byPlayerIndex_RT vf) (PlayerIndex view)) \<or>
                      (gThread \<and> IsAllowed (=) (byPlayerIndex_GT vf) (PlayerIndex view))) \<and>
                     ((rThread \<and> IsAllowed (=) (byViewActor_RT vf) (ViewActor view)) \<or>
                      (gThread \<and> IsAllowed (=) (byViewActor_GT vf) (ViewActor view))))))"

section \<open>Engine containers and integers\<close>

text \<open>
  A \<^verbatim>\<open>TMap\<close> is an association list with one entry per key: \<^verbatim>\<open>Find\<close> looks a key up,
  \<^verbatim>\<open>Add\<close> and \<^verbatim>\<open>Emplace\<close> replace the value of a key that is present and append the pair
  otherwise, \<^verbatim>\<open>Remove\<close> drops the key, \<^verbatim>\<open>GetKeys\<close> lists the keys.
\<close>

type_synonym ('k, 'v) TMap = "('k \<times> 'v) list"

definition TMap_Find :: "('k, 'v) TMap \<Rightarrow> 'k \<Rightarrow> 'v option" where
  "TMap_Find m k = map_of m k"

definition TMap_Add :: "'k \<Rightarrow> 'v \<Rightarrow> ('k, 'v) TMap \<Rightarrow> ('k, 'v) TMap" where
  "TMap_Add k v m = AList.update k v m"

definition TMap_Remove :: "'k \<Rightarrow> ('k, 'v) TMap \<Rightarrow> ('k, 'v) TMap" where
  "TMap_Remove k m = AList.delete k m"

definition TMap_GetKeys :: "('k, 'v) TMap \<Rightarrow> 'k list" where
  "TMap_GetKeys m = map fst m"

text \<open>The invariant of the container: no key twice.\<close>

definition TMap_ok :: "('k, 'v) TMap \<Rightarrow> bool" where
  "TMap_ok m = distinct (map fst m)"

text \<open>
  \<^verbatim>\<open>int\<close> and \<^verbatim>\<open>int32\<close> are 32 bits wide. Values are integers of HOL; an arithmetic result
  is brought back into the signed range the way the hardware does.
\<close>

definition int32_wrap :: "int \<Rightarrow> int" where
  "int32_wrap x = (x + 2147483648) mod 4294967296 - 2147483648"

definition INT32_MAX :: int where
  "INT32_MAX = 2147483647"

section \<open>T\_EGP\_PerViewData\<close>

text \<open>\<^verbatim>\<open>FIntPoint\<close> and \<^verbatim>\<open>FIntRect\<close> of the engine, with the operations the cache uses.\<close>

record FIntPoint =
  X :: int
  Y :: int

record FIntRect =
  MinPt :: FIntPoint
  MaxPt :: FIntPoint

definition FIntPoint_minus :: "FIntPoint \<Rightarrow> FIntPoint \<Rightarrow> FIntPoint" where
  "FIntPoint_minus a b = \<lparr> X = int32_wrap (X a - X b), Y = int32_wrap (Y a - Y b) \<rparr>"

definition FIntPoint_ne :: "FIntPoint \<Rightarrow> FIntPoint \<Rightarrow> bool" where
  "FIntPoint_ne a b = (X a \<noteq> X b \<or> Y a \<noteq> Y b)"

definition FIntRect_Size :: "FIntRect \<Rightarrow> FIntPoint" where
  "FIntRect_Size r =
     \<lparr> X = int32_wrap (X (MaxPt r) - X (MinPt r)), Y = int32_wrap (Y (MaxPt r) - Y (MinPt r)) \<rparr>"

definition FIntRect_ne :: "FIntRect \<Rightarrow> FIntRect \<Rightarrow> bool" where
  "FIntRect_ne a b = (FIntPoint_ne (MinPt a) (MinPt b) \<or> FIntPoint_ne (MaxPt a) (MaxPt b))"

text \<open>
  What the cache reads of a \<^verbatim>\<open>FViewInfo\<close>. \<open>State\<close> is the pointer \<^verbatim>\<open>view.State\<close>:
  \<open>None\<close> is a null pointer, \<open>Some k\<close> a view state whose \<^verbatim>\<open>GetViewKey()\<close> is \<open>k\<close>.
\<close>

record FViewInfo =
  State :: "int option"
  ViewRect :: FIntRect
  FeatureLevel_of_view :: nat

text \<open>The private struct \<^verbatim>\<open>ViewData\<close>.\<close>

record 'u ViewData =
  User :: 'u
  PixelSubset :: FIntRect
  FeatureLevel :: nat
  FramesSinceAccess :: int

record 'u PerViewData =
  CleanupFrameThreshold :: int
  CleanupPreventionByViewID :: "int set"
  dataByViewID :: "(int, 'u ViewData) TMap"
  viewIDBuffer :: "int list"

text \<open>A cache as the struct's initialisers leave it: threshold 60, nothing protected, no data.\<close>

definition PerViewData_new :: "'u PerViewData" where
  "PerViewData_new =
     \<lparr> CleanupFrameThreshold = 60, CleanupPreventionByViewID = {},
       dataByViewID = [], viewIDBuffer = [] \<rparr>"

text \<open>
  The loop of \<^verbatim>\<open>Tick\<close> over the buffered keys. \<^verbatim>\<open>dataByViewID[viewID]\<close> asserts that the
  key is present and gives a reference into the map; the increment through that reference
  is the entry stored back under its key.
\<close>

fun Tick_loop :: "int list \<Rightarrow> 'u PerViewData \<Rightarrow> error + 'u PerViewData" where
  "Tick_loop [] s = Inr s"
| "Tick_loop (viewID # rest) s =
     (if viewID \<in> CleanupPreventionByViewID s then Tick_loop rest s
      else (case TMap_Find (dataByViewID s) viewID of
              None \<Rightarrow> Inl AssertionFailed
            | Some data \<Rightarrow>
                if FramesSinceAccess data > CleanupFrameThreshold s
                then Tick_loop rest (s\<lparr> dataByViewID := TMap_Remove viewID (dataByViewID s) \<rparr>)
                else Tick_loop rest
                       (s\<lparr> dataByViewID :=
                            TMap_Add viewID
                              (data\<lparr> FramesSinceAccess := int32_wrap (FramesSinceAccess data + 1) \<rparr>)
                              (dataByViewID s) \<rparr>)))"

definition Tick :: "bool \<Rightarrow> 'u PerViewData \<Rightarrow> error + 'u PerViewData" where
  "Tick rThread s =
     (if \<not> rThread then Inl AssertionFailed
      else (let s1 = s\<lparr> viewIDBuffer := TMap_GetKeys (dataByViewID s) \<rparr>
            in Tick_loop (viewIDBuffer s1) s1))"

text \<open>
  The calls \<^verbatim>\<open>DataForView\<close> makes into the user's data type: its constructor, with the
  view rectangle, and \<^verbatim>\<open>Resample\<close>, with the old size, the new size and the offset.
\<close>

datatype user_call =
    Call_Constructor FIntRect
  | Call_Resample FIntPoint FIntPoint FIntPoint

text \<open>
  \<^verbatim>\<open>DataForView\<close>. The user's constructor and \<^verbatim>\<open>Resample\<close> are parameters. \<^verbatim>\<open>data\<close> points
  into the map, so what is written through it is stored back under the key at the end.
  The result is the cache, the user data the returned reference points to, and the calls
  made, in order.
\<close>

definition DataForView ::
  "bool \<Rightarrow> (FViewInfo \<Rightarrow> FIntRect \<Rightarrow> 'u)
     \<Rightarrow> ('u \<Rightarrow> FViewInfo \<Rightarrow> FIntPoint \<Rightarrow> FIntPoint \<Rightarrow> FIntPoint \<Rightarrow> 'u)
     \<Rightarrow> FViewInfo \<Rightarrow> 'u PerViewData
     \<Rightarrow> error + ('u PerViewData \<times> 'u \<times> user_call list)" where
  "DataForView rThread construct Resample view s =
     (if \<not> rThread then Inl AssertionFailed
      else (case State view of
        None \<Rightarrow> Inl InvalidPointer
      | Some viewID \<Rightarrow>
          (let (s1, data, calls1) =
                 (case TMap_Find (dataByViewID s) viewID of
                    Some found \<Rightarrow> (s, found, [])
                  | None \<Rightarrow>
                      (let created = \<lparr> User = construct view (ViewRect view),
                                        PixelSubset = ViewRect view,
                                        FeatureLevel = FeatureLevel_of_view view,
                                        FramesSinceAccess = 0 \<rparr>
                       in (s\<lparr> dataByViewID := TMap_Add viewID created (dataByViewID s) \<rparr>,
                           created, [Call_Constructor (ViewRect view)])));
               data2 = data\<lparr> FramesSinceAccess := 0 \<rparr>;
               (data3, calls2) =
                 (if FIntRect_ne (PixelSubset data2) (ViewRect view)
                  then (data2\<lparr> User := Resample (User data2) view
                                          (FIntRect_Size (PixelSubset data2))
                                          (FIntRect_Size (ViewRect view))
                                          (FIntPoint_minus (MinPt (ViewRect view))
                                                           (MinPt (PixelSubset data2))),
                               PixelSubset := ViewRect view \<rparr>,
                        [Call_Resample (FIntRect_Size (PixelSubset data2))
                                       (FIntRect_Size (ViewRect view))
                                       (FIntPoint_minus (MinPt (ViewRect view))
                                                        (MinPt (PixelSubset data2)))])
                  else (data2, []))
           in Inr (s1\<lparr> dataByViewID := TMap_Add viewID data3 (dataByViewID s1) \<rparr>,
                   User data3, calls1 @ calls2))))"

definition DoesDataExistForView :: "FViewInfo \<Rightarrow> 'u PerViewData \<Rightarrow> error + bool" where
  "DoesDataExistForView view s =
     (case State view of
        None \<Rightarrow> Inl InvalidPointer
      | Some viewID \<Rightarrow> Inr (TMap_Find (dataByViewID s) viewID \<noteq> None))"

text \<open>\<open>n\<close> frames without an access: \<^verbatim>\<open>Tick\<close> called \<open>n\<close> times.\<close>

fun Ticks :: "bool \<Rightarrow> nat \<Rightarrow> 'u PerViewData \<Rightarrow> error + 'u PerViewData" where
  "Ticks rThread 0 s = Inr s"
| "Ticks rThread (Suc n) s =
     (case Tick rThread s of Inl e \<Rightarrow> Inl e | Inr s' \<Rightarrow> Ticks rThread n s')"

text \<open>Frames in each of which the data of one view is fetched before the tick.\<close>

fun accessed_frames ::
  "bool \<Rightarrow> (FViewInfo \<Rightarrow> FIntRect \<Rightarrow> 'u)
     \<Rightarrow> ('u \<Rightarrow> FViewInfo \<Rightarrow> FIntPoint \<Rightarrow> FIntPoint \<Rightarrow> FIntPoint \<Rightarrow> 'u)
     \<Rightarrow> FViewInfo list \<Rightarrow> 'u PerViewData \<Rightarrow> error + 'u PerViewData" where
  "accessed_frames rThread construct Resample [] s = Inr s"
| "accessed_frames rThread construct Resample (view # views) s =
     (case DataForView rThread construct Resample view s of
        Inl e \<Rightarrow> Inl e
      | Inr (s1, u, calls) \<Rightarrow>
          (case Tick rThread s1 of
             Inl e \<Rightarrow> Inl e
           | Inr s2 \<Rightarrow> accessed_frames rThread construct Resample views s2))"

text \<open>
  What one \<^verbatim>\<open>Tick\<close> does to the entry of key \<open>viewID\<close>, read off the loop body: a protected
  entry is kept as it is, an entry whose count is above the threshold is removed, any
  other entry has its count advanced.
\<close>

definition tick_entry :: "int \<Rightarrow> int set \<Rightarrow> int \<Rightarrow> 'u ViewData \<Rightarrow> 'u ViewData option" where
  "tick_entry threshold protected viewID data =
     (if viewID \<in> protected then Some data
      else if FramesSinceAccess data > threshold then None
      else Some (data\<lparr> FramesSinceAccess := int32_wrap (FramesSinceAccess data + 1) \<rparr>))"

section \<open>GetDynamicMeshElementRange\<close>

text \<open>
  The engine's \<^verbatim>\<open>TRange<int32>\<close>: two bounds. \<^verbatim>\<open>FInt32Range::Empty()\<close> has two exclusive
  bounds at the default value; \<^verbatim>\<open>FInt32Range(A, B)\<close> is inclusive below and exclusive above.
\<close>

datatype TRangeBound = Exclusive int | Inclusive int | Open_bound

record FInt32Range =
  LowerBound :: TRangeBound
  UpperBound :: TRangeBound

definition FInt32Range_Empty :: FInt32Range where
  "FInt32Range_Empty = \<lparr> LowerBound = Exclusive 0, UpperBound = Exclusive 0 \<rparr>"

definition FInt32Range_make :: "int \<Rightarrow> int \<Rightarrow> FInt32Range" where
  "FInt32Range_make A B = \<lparr> LowerBound = Inclusive A, UpperBound = Exclusive B \<rparr>"

record FPrimitiveViewRelevance =
  bStaticRelevance :: bool
  bDynamicRelevance :: bool

text \<open>
  The three per-primitive arrays of a \<^verbatim>\<open>FViewInfo\<close> that the function reads. Indexing an
  engine array or bit array outside its bounds fails the container's own check.
\<close>

record FViewInfo_Primitives =
  PrimitiveViewRelevanceMap :: "FPrimitiveViewRelevance list"
  PrimitiveVisibilityMap :: "bool list"
  DynamicMeshElementRanges :: "FIntPoint list"

definition checked_index :: "'a list \<Rightarrow> nat \<Rightarrow> error + 'a" where
  "checked_index xs i = (if i < length xs then Inr (xs ! i) else Inl AssertionFailed)"

text \<open>\<open>primitiveIndex\<close> is a \<^verbatim>\<open>uint32\<close>: a natural number.\<close>

definition GetDynamicMeshElementRange :: "FViewInfo_Primitives \<Rightarrow> nat \<Rightarrow> error + FInt32Range" where
  "GetDynamicMeshElementRange info primitiveIndex =
     (if primitiveIndex \<ge> length (PrimitiveViewRelevanceMap info) then Inr FInt32Range_Empty
      else (case checked_index (PrimitiveVisibilityMap info) primitiveIndex of
              Inl e \<Rightarrow> Inl e
            | Inr visible \<Rightarrow>
                if visible
                then (case checked_index (PrimitiveViewRelevanceMap info) primitiveIndex of
                        Inl e \<Rightarrow> Inl e
                      | Inr ViewRelevance \<Rightarrow>
                          if bDynamicRelevance ViewRelevance
                          then (case checked_index (DynamicMeshElementRanges info) primitiveIndex of
                                  Inl e \<Rightarrow> Inl e
                                | Inr r \<Rightarrow> Inr (FInt32Range_make (X r) (Y r)))
                          else Inr FInt32Range_Empty)
                else Inr FInt32Range_Empty))"

section \<open>U\_EGP\_RenderPassComponent and U\_EGP\_RenderPass\<close>

text \<open>
  \<^verbatim>\<open>ProxyData_t\<close> is an array of bytes. A component is an engine object; the model keeps
  the fields the plugin declares, the attach parent that \<^verbatim>\<open>TickComponent\<close> reads with
  whether it is a primitive component, and whether the engine has marked the object as
  garbage.
\<close>

type_synonym ProxyData_t = "nat list"

definition MaxInlineProxyByteSize :: nat where
  "MaxInlineProxyByteSize = 512"

definition StackCount :: nat where
  "StackCount = 256"

record RenderPassComponent =
  Target :: ptr
  EnabledInCustomPass :: bool
  renderThreadProxy :: ProxyData_t
  renderThreadTarget :: ptr
  AttachParent :: ptr
  AttachParentIsPrimitive :: bool
  IsGarbage :: bool

record RenderPass =
  Components_GameThread :: "ptr list"
  ComponentProxies_RenderThread :: "(ptr, ProxyData_t) TMap"
  warnedAboutArrayHeapUsage :: bool
  warnedAboutProxyHeapUsage :: bool

text \<open>
  The closures a pass and its components hand to \<^verbatim>\<open>ENQUEUE_RENDER_COMMAND\<close>, with the
  values they capture: the component with its new proxy and target, and the snapshot
  of components with the scene and the frame time.
\<close>

datatype 'f pass_command =
    CopyCustomPassProxy ptr ProxyData_t ptr
  | UpdateCustomRenderPassProxies "ptr list" ptr 'f

text \<open>
  One pass (the \<^verbatim>\<open>_this\<close> that its render command captures), the component objects by
  address, and the queue of render commands, which the render thread runs in the order
  they were enqueued.
\<close>

record 'f PassWorld =
  objects :: "ptr \<Rightarrow> RenderPassComponent option"
  thePass :: RenderPass
  renderCommandQueue :: "'f pass_command list"
  passLog :: "log_event list"

text \<open>\<^verbatim>\<open>IsValid(c)\<close>: the pointer is not null and the object is there and not garbage.\<close>

definition IsValid :: "(ptr \<Rightarrow> RenderPassComponent option) \<Rightarrow> ptr \<Rightarrow> bool" where
  "IsValid heap c =
     (c \<noteq> 0 \<and> (case heap c of None \<Rightarrow> False | Some obj \<Rightarrow> \<not> IsGarbage obj))"

text \<open>\<^verbatim>\<open>TSet::Add\<close> and \<^verbatim>\<open>TSet::Remove\<close> on the set of registered components.\<close>

definition TSet_Add :: "'a \<Rightarrow> 'a list \<Rightarrow> 'a list" where
  "TSet_Add x xs = (if x \<in> set xs then xs else xs @ [x])"

definition TSet_Remove :: "'a \<Rightarrow> 'a list \<Rightarrow> 'a list" where
  "TSet_Remove x xs = removeAll x xs"

definition RegisterPassComponent :: "bool \<Rightarrow> ptr \<Rightarrow> 'f PassWorld \<Rightarrow> error + 'f PassWorld" where
  "RegisterPassComponent gThread component w =
     (if \<not> gThread then Inl AssertionFailed
      else Inr (w\<lparr> thePass := (thePass w)\<lparr> Components_GameThread :=
                                         TSet_Add component (Components_GameThread (thePass w)) \<rparr> \<rparr>))"

definition UnregisterPassComponent :: "bool \<Rightarrow> ptr \<Rightarrow> 'f PassWorld \<Rightarrow> error + 'f PassWorld" where
  "UnregisterPassComponent gThread component w =
     (if \<not> gThread then Inl AssertionFailed
      else Inr (w\<lparr> thePass := (thePass w)\<lparr> Components_GameThread :=
                                         TSet_Remove component (Components_GameThread (thePass w)) \<rparr> \<rparr>))"

text \<open>
  \<^verbatim>\<open>Cast<UPrimitiveComponent>(GetAttachParent())\<close>: the attach parent when it is a primitive
  component, and \<^verbatim>\<open>nullptr\<close> when there is none or it is of another class.
\<close>

definition Cast_UPrimitiveComponent :: "RenderPassComponent \<Rightarrow> ptr" where
  "Cast_UPrimitiveComponent obj =
     (if AttachParent obj \<noteq> 0 \<and> AttachParentIsPrimitive obj then AttachParent obj else 0)"

text \<open>
  \<^verbatim>\<open>U_EGP_RenderPassComponent::TickComponent\<close>: builds the new proxy with the component's
  \<^verbatim>\<open>ConstructProxyData_GameThread\<close>, a parameter here, and enqueues its publication.
\<close>

definition TickComponent ::
  "(RenderPassComponent \<Rightarrow> ProxyData_t) \<Rightarrow> ptr \<Rightarrow> 'f PassWorld \<Rightarrow> error + 'f PassWorld" where
  "TickComponent ConstructProxyData_GameThread c w =
     (case objects w c of
        None \<Rightarrow> Inl InvalidPointer
      | Some obj \<Rightarrow>
          Inr (w\<lparr> renderCommandQueue := renderCommandQueue w @
                     [CopyCustomPassProxy c (ConstructProxyData_GameThread obj)
                        (Cast_UPrimitiveComponent obj)] \<rparr>))"

text \<open>\<^verbatim>\<open>U_EGP_RenderPass::Tick_GameThread\<close>, with \<open>scene\<close> for \<^verbatim>\<open>thisWorld.Scene\<close>.\<close>

definition Tick_GameThread :: "ptr \<Rightarrow> 'f \<Rightarrow> 'f PassWorld \<Rightarrow> 'f PassWorld" where
  "Tick_GameThread scene deltaSeconds w =
     (let components = filter (IsValid (objects w)) (Components_GameThread (thePass w));
          w1 = (if \<not> warnedAboutArrayHeapUsage (thePass w) \<and> length components > StackCount
                then w\<lparr> passLog := passLog w @ [Log_ComponentArrayHeapUsage (length components)],
                        thePass := (thePass w)\<lparr> warnedAboutArrayHeapUsage := True \<rparr> \<rparr>
                else w)
      in w1\<lparr> renderCommandQueue := renderCommandQueue w1 @
                [UpdateCustomRenderPassProxies components scene deltaSeconds] \<rparr>)"

text \<open>
  The body of the command, on the render thread. First the loop that fills the table from
  the snapshot; \<^verbatim>\<open>c->GetProxy_RenderThread()\<close> follows the captured pointer.
\<close>

fun rebuild_loop :: "ptr list \<Rightarrow> 'f PassWorld \<Rightarrow> error + 'f PassWorld" where
  "rebuild_loop [] w = Inr w"
| "rebuild_loop (c # rest) w =
     (case objects w c of
        None \<Rightarrow> Inl InvalidPointer
      | Some obj \<Rightarrow>
          (let proxy = renderThreadProxy obj;
               w1 = (if \<not> warnedAboutProxyHeapUsage (thePass w) \<and> length proxy > MaxInlineProxyByteSize
                     then w\<lparr> passLog := passLog w @ [Log_ProxyHeapUsage (length proxy)],
                             thePass := (thePass w)\<lparr> warnedAboutProxyHeapUsage := True \<rparr> \<rparr>
                     else w)
           in rebuild_loop rest
                (w1\<lparr> thePass := (thePass w1)\<lparr> ComponentProxies_RenderThread :=
                                           TMap_Add c proxy (ComponentProxies_RenderThread (thePass w1)) \<rparr> \<rparr>)))"

text \<open>The command up to the call of the hook: the table is reset and filled.\<close>

definition rebuild_ComponentProxies :: "ptr list \<Rightarrow> 'f PassWorld \<Rightarrow> error + 'f PassWorld" where
  "rebuild_ComponentProxies components w =
     rebuild_loop components (w\<lparr> thePass := (thePass w)\<lparr> ComponentProxies_RenderThread := [] \<rparr> \<rparr>)"

text \<open>
  \<^verbatim>\<open>Tick_RenderThread\<close> is virtual; the hook is a parameter that receives the scene, the
  frame time and the state the rebuild left. The base class does nothing.
\<close>

definition Tick_RenderThread :: "ptr \<Rightarrow> 'f \<Rightarrow> 'f PassWorld \<Rightarrow> 'f PassWorld" where
  "Tick_RenderThread thisScene gameThreadDeltaSeconds w = w"

fun run_pass_command ::
  "(ptr \<Rightarrow> 'f \<Rightarrow> 'f PassWorld \<Rightarrow> 'f PassWorld) \<Rightarrow> 'f pass_command \<Rightarrow> 'f PassWorld
     \<Rightarrow> error + 'f PassWorld" where
  "run_pass_command hook (CopyCustomPassProxy c newProxy newTarget) w =
     (case objects w c of
        None \<Rightarrow> Inl InvalidPointer
      | Some obj \<Rightarrow>
          Inr (w\<lparr> objects := (objects w)
                     (c \<mapsto> obj\<lparr> renderThreadProxy := newProxy, renderThreadTarget := newTarget \<rparr>) \<rparr>))"
| "run_pass_command hook (UpdateCustomRenderPassProxies components scene deltaSeconds) w =
     (case rebuild_ComponentProxies components w of
        Inl e \<Rightarrow> Inl e
      | Inr w' \<Rightarrow> Inr (hook scene deltaSeconds w'))"

text \<open>The render thread: the queued commands, oldest first.\<close>

fun run_pass_commands ::
  "(ptr \<Rightarrow> 'f \<Rightarrow> 'f PassWorld \<Rightarrow> 'f PassWorld) \<Rightarrow> 'f pass_command list \<Rightarrow> 'f PassWorld
     \<Rightarrow> error + 'f PassWorld" where
  "run_pass_commands hook [] w = Inr w"
| "run_pass_commands hook (cmd # cmds) w =
     (case run_pass_command hook cmd w of
        Inl e \<Rightarrow> Inl e
      | Inr w' \<Rightarrow> run_pass_commands hook cmds w')"

definition flush_render_commands ::
  "(ptr \<Rightarrow> 'f \<Rightarrow> 'f PassWorld \<Rightarrow> 'f PassWorld) \<Rightarrow> 'f PassWorld \<Rightarrow> error + 'f PassWorld" where
  "flush_render_commands hook w =
     run_pass_commands hook (renderCommandQueue w) (w\<lparr> renderCommandQueue := [] \<rparr>)"

text \<open>Every component's flag \<^verbatim>\<open>EnabledInCustomPass\<close> set to what \<open>enabled\<close> says for its address.\<close>

definition set_EnabledInCustomPass :: "(ptr \<Rightarrow> bool) \<Rightarrow> 'f PassWorld \<Rightarrow> 'f PassWorld" where
  "set_EnabledInCustomPass enabled w =
     w\<lparr> objects := (\<lambda>c. map_option (\<lambda>obj. obj\<lparr> EnabledInCustomPass := enabled c \<rparr>) (objects w c)) \<rparr>"

section \<open>U\_EGP\_RenderPassSubsystem\<close>

text \<open>
  A pass type, \<^verbatim>\<open>TSubclassOf<U_EGP_RenderPass>\<close>, is a number. Of a pass object the
  subsystem reads its class; its cleanup on the render thread, in the form the base class
  gives it, sets the flag \<^verbatim>\<open>stopAllRendering\<close> of the pass's scene-view extension.
\<close>

type_synonym pass_class = nat

record PassObject =
  ObjectClass :: pass_class
  stopAllRendering :: bool

text \<open>
  The render commands of the subsystem: the closures \<^verbatim>\<open>InitPass\<close> and \<^verbatim>\<open>CleanupPass\<close> with
  the values they capture, and the command with which a fence waits in the queue.
\<close>

datatype subsystem_command =
    InitPass ptr
  | CleanupPass ptr bool
  | FenceCommand ptr

text \<open>
  The subsystem's members, the pass objects by address, the queue of render commands, the
  next free address for \<^verbatim>\<open>NewObject\<close> and \<^verbatim>\<open>std::make_unique\<close>, and whether \<^verbatim>\<open>GetWorld()\<close>
  answers a world.
\<close>

record SubsystemWorld =
  passes :: "(pass_class, ptr) TMap"
  dyingPassFences :: "(ptr, ptr) TMap"
  isCurrentlyDying :: bool
  passObjects :: "ptr \<Rightarrow> PassObject option"
  renderQueue :: "subsystem_command list"
  nextObject :: ptr
  hasWorld :: bool

text \<open>
  Modelled from the spec: the engine class \<^verbatim>\<open>FRenderCommandFence\<close>, which the plugin uses
  and does not define. The specification describes a fence as an asynchronous completion
  signal indicating that previously enqueued commands have finished executing. So
  \<^verbatim>\<open>BeginFence\<close> puts the fence's command at the end of the render queue, and the fence is
  complete when no command of it waits in the queue: a fence never begun is complete.
\<close>

definition BeginFence :: "ptr \<Rightarrow> SubsystemWorld \<Rightarrow> SubsystemWorld" where
  "BeginFence fence w = w\<lparr> renderQueue := renderQueue w @ [FenceCommand fence] \<rparr>"

definition IsFenceComplete :: "SubsystemWorld \<Rightarrow> ptr \<Rightarrow> bool" where
  "IsFenceComplete w fence = (FenceCommand fence \<notin> set (renderQueue w))"

text \<open>\<^verbatim>\<open>GetPass\<close>: the pass of the type, \<open>None\<close> for \<^verbatim>\<open>nullptr\<close>.\<close>

definition GetPass ::
  "bool \<Rightarrow> pass_class \<Rightarrow> bool \<Rightarrow> SubsystemWorld \<Rightarrow> error + (SubsystemWorld \<times> ptr option)" where
  "GetPass gThread type createIfNeeded w =
     (if \<not> gThread then Inl AssertionFailed
      else if \<not> hasWorld w then Inl AssertionFailed
      else (case TMap_Find (passes w) type of
              Some found \<Rightarrow> Inr (w, Some found)
            | None \<Rightarrow>
                if \<not> createIfNeeded then Inr (w, None)
                else (let newPass = nextObject w;
                          w1 = w\<lparr> nextObject := Suc newPass,
                                  passObjects := (passObjects w)
                                    (newPass \<mapsto> \<lparr> ObjectClass = type, stopAllRendering = False \<rparr>),
                                  passes := TMap_Add type newPass (passes w) \<rparr>
                      in Inr (w1\<lparr> renderQueue := renderQueue w1 @ [InitPass newPass] \<rparr>,
                              Some newPass))))"

text \<open>
  The second half of \<^verbatim>\<open>DestroyPass_Impl_GameThread\<close>, from the creation of the fence on:
  the fence is stored under the pass, the cleanup is enqueued, the fence is begun.
\<close>

definition fenced_cleanup ::
  "ptr \<Rightarrow> bool \<Rightarrow> SubsystemWorld \<Rightarrow> error + (SubsystemWorld \<times> bool)" where
  "fenced_cleanup pass isExternalCall w =
     (let fence = nextObject w;
          w1 = w\<lparr> nextObject := Suc fence,
                  dyingPassFences := TMap_Add pass fence (dyingPassFences w) \<rparr>
      in if \<not> hasWorld w1 then Inl AssertionFailed
         else Inr (BeginFence fence
                     (w1\<lparr> renderQueue := renderQueue w1 @ [CleanupPass pass isExternalCall] \<rparr>),
                   True))"

definition DestroyPass_Impl_GameThread ::
  "bool \<Rightarrow> pass_class \<Rightarrow> bool \<Rightarrow> SubsystemWorld \<Rightarrow> error + (SubsystemWorld \<times> bool)" where
  "DestroyPass_Impl_GameThread gThread type isExternalCall w =
     (if \<not> gThread then Inl AssertionFailed
      else (case TMap_Find (passes w) type of
              None \<Rightarrow> Inr (w, False)
            | Some pass \<Rightarrow>
                if isCurrentlyDying w
                then (if \<not> isExternalCall then Inr (w, True)
                      else fenced_cleanup pass isExternalCall w)
                else (if \<not> isExternalCall then Inl AssertionFailed
                      else fenced_cleanup pass isExternalCall
                             (w\<lparr> passes := TMap_Remove type (passes w) \<rparr>))))"

definition DestroyPass_GameThread ::
  "bool \<Rightarrow> pass_class \<Rightarrow> SubsystemWorld \<Rightarrow> error + (SubsystemWorld \<times> bool)" where
  "DestroyPass_GameThread gThread type w = DestroyPass_Impl_GameThread gThread type True w"

text \<open>
  \<^verbatim>\<open>BeginDestroy\<close>: the loop over the entries of \<^verbatim>\<open>passes\<close>, which calls the internal
  destroy with the class of each pass object, and then empties the map.
\<close>

fun BeginDestroy_loop ::
  "bool \<Rightarrow> (pass_class \<times> ptr) list \<Rightarrow> SubsystemWorld \<Rightarrow> error + SubsystemWorld" where
  "BeginDestroy_loop gThread [] w = Inr w"
| "BeginDestroy_loop gThread (entry # rest) w =
     (case passObjects w (snd entry) of
        None \<Rightarrow> Inl InvalidPointer
      | Some obj \<Rightarrow>
          (case DestroyPass_Impl_GameThread gThread (ObjectClass obj) False w of
             Inl e \<Rightarrow> Inl e
           | Inr (w', existed) \<Rightarrow> BeginDestroy_loop gThread rest w'))"

definition BeginDestroy :: "bool \<Rightarrow> SubsystemWorld \<Rightarrow> error + SubsystemWorld" where
  "BeginDestroy gThread w =
     (let w1 = w\<lparr> isCurrentlyDying := True \<rparr>
      in (case BeginDestroy_loop gThread (passes w1) w1 of
            Inl e \<Rightarrow> Inl e
          | Inr w2 \<Rightarrow> Inr (w2\<lparr> passes := [] \<rparr>)))"

definition IsReadyForFinishDestroy :: "SubsystemWorld \<Rightarrow> bool" where
  "IsReadyForFinishDestroy w =
     list_all (\<lambda>kvp. IsFenceComplete w (snd kvp)) (dyingPassFences w)"

definition FinishDestroy :: "SubsystemWorld \<Rightarrow> SubsystemWorld" where
  "FinishDestroy w = w\<lparr> dyingPassFences := [] \<rparr>"

text \<open>
  The render thread takes the oldest command off the queue and runs it. The pass
  methods are the base class's: \<^verbatim>\<open>InitThisPass_RenderThread\<close> does nothing, and
  \<^verbatim>\<open>CleanupThisPass_RenderThread\<close> kills the rendering of the pass's extension.
\<close>

fun run_subsystem_command :: "subsystem_command \<Rightarrow> SubsystemWorld \<Rightarrow> error + SubsystemWorld" where
  "run_subsystem_command (InitPass newPass) w =
     (case passObjects w newPass of
        None \<Rightarrow> Inl InvalidPointer
      | Some obj \<Rightarrow> Inr w)"
| "run_subsystem_command (CleanupPass pass subsystemIsDying) w =
     (case passObjects w pass of
        None \<Rightarrow> Inl InvalidPointer
      | Some obj \<Rightarrow>
          Inr (w\<lparr> passObjects := (passObjects w)(pass \<mapsto> obj\<lparr> stopAllRendering := True \<rparr>) \<rparr>))"
| "run_subsystem_command (FenceCommand fence) w = Inr w"

definition render_thread_step :: "SubsystemWorld \<Rightarrow> error + SubsystemWorld" where
  "render_thread_step w =
     (case renderQueue w of
        [] \<Rightarrow> Inr w
      | cmd # rest \<Rightarrow> run_subsystem_command cmd (w\<lparr> renderQueue := rest \<rparr>))"

fun render_thread_steps :: "nat \<Rightarrow> SubsystemWorld \<Rightarrow> error + SubsystemWorld" where
  "render_thread_steps 0 w = Inr w"
| "render_thread_steps (Suc n) w =
     (case render_thread_step w of
        Inl e \<Rightarrow> Inl e
      | Inr w' \<Rightarrow> render_thread_steps n w')"

text \<open>The pass objects that the commands waiting in the queue will follow a pointer to.\<close>

fun command_pass :: "subsystem_command \<Rightarrow> ptr option" where
  "command_pass (InitPass newPass) = Some newPass"
| "command_pass (CleanupPass pass subsystemIsDying) = Some pass"
| "command_pass (FenceCommand fence) = None"

definition queued_passes_alive :: "SubsystemWorld \<Rightarrow> bool" where
  "queued_passes_alive w =
     list_all (\<lambda>cmd. case command_pass cmd of
                        None \<Rightarrow> True
                      | Some pass \<Rightarrow> passObjects w pass \<noteq> None)
              (renderQueue w)"

section \<open>Concrete inputs\<close>

text \<open>
  A filter that whitelists scene \<open>5\<close> and view actor \<open>7\<close>, blacklists player \<open>1\<close> and leaves
  the render-target list unset, with both copies in agreement; and a view it accepts.
\<close>

definition example_filter :: ViewFilter where
  "example_filter =
     \<lparr> ExcludeAll = False,
       byRenderTarget_GT = FilterList_new None, byRenderTarget_RT = FilterList_new None,
       byScene_GT = \<lparr> isWhitelist = Some True, elements = [5] \<rparr>,
       byScene_RT = \<lparr> isWhitelist = Some True, elements = [5] \<rparr>,
       byViewport_GT = FilterList_new None, byViewport_RT = FilterList_new None,
       byViewActor_GT = \<lparr> isWhitelist = Some True, elements = [7] \<rparr>,
       byViewActor_RT = \<lparr> isWhitelist = Some True, elements = [7] \<rparr>,
       byPlayerIndex_GT = \<lparr> isWhitelist = Some False, elements = [1] \<rparr>,
       byPlayerIndex_RT = \<lparr> isWhitelist = Some False, elements = [1] \<rparr> \<rparr>"

definition example_view :: FSceneView where
  "example_view =
     \<lparr> Family = \<lparr> Scene = 5, RenderTarget = 0 \<rparr>, PlayerIndex = 0, ViewActor = 7 \<rparr>"

text \<open>
  A cache with the default threshold of 60 that holds one entry, for view 7, fetched just
  now for the rectangle from (4, 6) to (104, 56); its user data counts the calls of
  \<^verbatim>\<open>Resample\<close>. And two views with that key, one with the cached rectangle and one moved
  and resized.
\<close>

definition example_entry :: "nat ViewData" where
  "example_entry =
     \<lparr> User = 0,
       PixelSubset = \<lparr> MinPt = \<lparr> X = 4, Y = 6 \<rparr>, MaxPt = \<lparr> X = 104, Y = 56 \<rparr> \<rparr>,
       FeatureLevel = 0, FramesSinceAccess = 0 \<rparr>"

definition example_cache :: "nat PerViewData" where
  "example_cache =
     \<lparr> CleanupFrameThreshold = 60, CleanupPreventionByViewID = {},
       dataByViewID = [(7, example_entry)], viewIDBuffer = [] \<rparr>"

definition example_same_view :: FViewInfo where
  "example_same_view =
     \<lparr> State = Some 7,
       ViewRect = \<lparr> MinPt = \<lparr> X = 4, Y = 6 \<rparr>, MaxPt = \<lparr> X = 104, Y = 56 \<rparr> \<rparr>,
       FeatureLevel_of_view = 0 \<rparr>"

definition example_resized_view :: FViewInfo where
  "example_resized_view =
     \<lparr> State = Some 7,
       ViewRect = \<lparr> MinPt = \<lparr> X = 10, Y = 20 \<rparr>, MaxPt = \<lparr> X = 210, Y = 120 \<rparr> \<rparr>,
       FeatureLevel_of_view = 0 \<rparr>"

definition example_construct :: "FViewInfo \<Rightarrow> FIntRect \<Rightarrow> nat" where
  "example_construct view viewportSubset = 0"

definition example_Resample ::
  "nat \<Rightarrow> FViewInfo \<Rightarrow> FIntPoint \<Rightarrow> FIntPoint \<Rightarrow> FIntPoint \<Rightarrow> nat" where
  "example_Resample u view oldResolution newResolution oldToNewPixelOffset = Suc u"

text \<open>A view with two primitives, the second visible and dynamic.\<close>

definition example_primitives :: FViewInfo_Primitives where
  "example_primitives =
     \<lparr> PrimitiveViewRelevanceMap =
         [\<lparr> bStaticRelevance = True, bDynamicRelevance = False \<rparr>,
          \<lparr> bStaticRelevance = False, bDynamicRelevance = True \<rparr>],
       PrimitiveVisibilityMap = [True, True],
       DynamicMeshElementRanges = [\<lparr> X = 0, Y = 0 \<rparr>, \<lparr> X = 3, Y = 8 \<rparr>] \<rparr>"

text \<open>
  A pass in a world with three components at addresses 11, 12 and 13, whose published
  proxies are the bytes 10, 20 and 30. The first two are registered; the third is not.
\<close>

definition example_component :: "nat \<Rightarrow> RenderPassComponent" where
  "example_component byte =
     \<lparr> Target = 0, EnabledInCustomPass = True, renderThreadProxy = [byte],
       renderThreadTarget = 0, AttachParent = 0,
       AttachParentIsPrimitive = False, IsGarbage = False \<rparr>"

definition example_pass_world :: "nat PassWorld" where
  "example_pass_world =
     \<lparr> objects = [11 \<mapsto> example_component 10, 12 \<mapsto> example_component 20,
                  13 \<mapsto> example_component 30],
       thePass = \<lparr> Components_GameThread = [11, 12], ComponentProxies_RenderThread = [],
                warnedAboutArrayHeapUsage = False, warnedAboutProxyHeapUsage = False \<rparr>,
       renderCommandQueue = [], passLog = [] \<rparr>"

text \<open>
  A subsystem in normal operation with two passes, of types 21 and 22, whose objects are
  at addresses 101 and 102; nothing is queued and no pass is dying.
\<close>

definition example_subsystem :: SubsystemWorld where
  "example_subsystem =
     \<lparr> passes = [(21, 101), (22, 102)], dyingPassFences = [], isCurrentlyDying = False,
       passObjects = [101 \<mapsto> \<lparr> ObjectClass = 21, stopAllRendering = False \<rparr>,
                      102 \<mapsto> \<lparr> ObjectClass = 22, stopAllRendering = False \<rparr>],
       renderQueue = [], nextObject = 200, hasWorld = True \<rparr>"

text \<open>
  The same subsystem after the pass of type 22 has been destroyed by an external call:
  its cleanup and its fence, at address 200, wait in the queue.
\<close>

definition example_subsystem_one_dying :: SubsystemWorld where
  "example_subsystem_one_dying =
     \<lparr> passes = [(21, 101)], dyingPassFences = [(102, 200)], isCurrentlyDying = False,
       passObjects = [101 \<mapsto> \<lparr> ObjectClass = 21, stopAllRendering = False \<rparr>,
                      102 \<mapsto> \<lparr> ObjectClass = 22, stopAllRendering = False \<rparr>],
       renderQueue = [CleanupPass 102 True, FenceCommand 200], nextObject = 201,
       hasWorld = True \<rparr>"

section \<open>Verification: FilterList\<close>

lemma isListed_iff: "isListed Comparator t es = (\<exists>e \<in> set es. Comparator e t)"
  by (induction es) auto

text \<open>
  C7. For every filter list and every candidate \<open>t\<close>: with the mode unset \<open>IsAllowed\<close> is
  true; with the mode set it is true exactly when membership of \<open>t\<close> in the element list,
  under the comparator, equals the whitelist flag. So a whitelist allows exactly its
  members and a blacklist exactly the non-members.
\<close>

theorem IsAllowed_semantics:
  "IsAllowed Comparator f t =
     (case isWhitelist f of
        None \<Rightarrow> True
      | Some True \<Rightarrow> (\<exists>e \<in> set (elements f). Comparator e t)
      | Some False \<Rightarrow> \<not> (\<exists>e \<in> set (elements f). Comparator e t))"
  by (auto simp: IsAllowed_def isListed_iff split: option.splits bool.splits)

section \<open>Verification: filter mutation\<close>

lemma updateFilter_conflict:
  "isWhitelist f = Some w \<Longrightarrow>
     updateFilter Comparator element True (\<not> w) f = Inr (f, [Log_FilterPolarityConflict (\<not> w)])"
  by (simp add: updateFilter_def IsAWhitelist_def)

text \<open>
  At the interface: on the game thread the rejected add leaves both copies as they were,
  logs the error, and still enqueues the command for the render-thread copy, which
  decides for itself when the command runs.
\<close>

lemma UpdateFilterList_rejects_on_game_thread:
  assumes "isWhitelist (filter_GT s) = Some w"
  shows "UpdateFilterList True Comparator element True (\<not> w) s =
           Inr (s\<lparr> renderCommands := renderCommands s @ [UpdateFilter element True (\<not> w)],
                   filterLog := filterLog s @ [Log_FilterPolarityConflict (\<not> w)] \<rparr>)"
  using assms
  by (simp add: UpdateFilterList_def dispatch_filter_command_def Let_def updateFilter_def
                IsAWhitelist_def)

lemma single_polarity_unset:
  "single_polarity f \<Longrightarrow> isWhitelist f = None \<Longrightarrow> elements f = []"
  by (cases "elements f") (simp_all add: single_polarity_def)

lemma single_polarity_not_both:
  assumes "single_polarity f"
  shows "\<not> holds_both_polarities f"
proof
  note sp = assms
  assume both: "holds_both_polarities f"
  from both obtain x y where x: "x \<in> set (elements f)" "snd x"
    and y: "y \<in> set (elements f)" "\<not> snd y"
    by (auto simp: holds_both_polarities_def list_ex_iff)
  from sp have all: "\<forall>z \<in> set (elements f). isWhitelist f = Some (snd z)"
    by (simp add: single_polarity_def list_all_iff)
  from all x(1) have "isWhitelist f = Some (snd x)" by blast
  moreover from all y(1) have "isWhitelist f = Some (snd y)" by blast
  ultimately have "snd x = snd y" by simp
  with x(2) y(2) show False by simp
qed

lemma updateFilter_single_polarity:
  assumes "single_polarity f"
  shows "\<exists>f' l. updateFilter C (element, w) isAdding w f = Inr (f', l) \<and> single_polarity f'"
proof (cases isAdding)
  case False
  then show ?thesis using assms
    by (simp add: updateFilter_def Remove_def single_polarity_def list_all_iff)
next
  case True
  show ?thesis
  proof (cases "isWhitelist f")
    case None
    then have "elements f = []" using assms by (rule single_polarity_unset [rotated])
    then show ?thesis using True None
      by (simp add: updateFilter_def IsAWhitelist_def AddWhitelisted_def AddBlacklisted_def
                    single_polarity_def)
  next
    case (Some m)
    then show ?thesis using True assms
      by (cases m; cases w)
         (simp_all add: updateFilter_def IsAWhitelist_def AddWhitelisted_def AddBlacklisted_def
                        single_polarity_def)
  qed
qed

lemma run_filter_command_single_polarity:
  assumes "single_polarity f" and "\<not> flips_polarity (label_command c) f"
  shows "\<exists>f' l. run_filter_command C (label_command c) f = Inr (f', l) \<and> single_polarity f'"
proof (cases c)
  case (UpdateFilter element isAdding w)
  then show ?thesis using updateFilter_single_polarity [OF assms(1)] by simp
next
  case ClearFilter
  then show ?thesis by (simp add: Clear_def single_polarity_def)
next
  case (ConfigureFilter m)
  then show ?thesis using assms
    by (cases "elements f = []") (simp_all add: Configure_def single_polarity_def)
qed

lemma run_filter_commands_single_polarity:
  "single_polarity f \<Longrightarrow> never_flips C (map label_command cs) f \<Longrightarrow>
     \<exists>f' l. run_filter_commands C (map label_command cs) f = Inr (f', l) \<and> single_polarity f'"
proof (induction cs arbitrary: f)
  case Nil
  then show ?case by simp
next
  case (Cons c cs)
  from Cons.prems have nf: "\<not> flips_polarity (label_command c) f" by simp
  from run_filter_command_single_polarity [OF Cons.prems(1) nf]
  obtain f1 l1 where s1: "run_filter_command C (label_command c) f = Inr (f1, l1)"
    and p1: "single_polarity f1" by blast
  from Cons.prems(2) s1 have "never_flips C (map label_command cs) f1" by simp
  from Cons.IH [OF p1 this] obtain f2 l2
    where "run_filter_commands C (map label_command cs) f1 = Inr (f2, l2)" "single_polarity f2"
    by blast
  with s1 show ?case by simp
qed

text \<open>The run on labelled elements is the source's run on the bare elements.\<close>

lemma unlabel_updateFilter:
  "updateFilter (labelled_Comparator C) (element, w) isAdding w f = Inr (f', l) \<Longrightarrow>
     updateFilter C element isAdding w (unlabel f) = Inr (unlabel f', l)"
  by (auto simp: updateFilter_def IsAWhitelist_def AddWhitelisted_def AddBlacklisted_def
                 Remove_def unlabel_def labelled_Comparator_def filter_map comp_def
           split: if_splits)

lemma unlabel_run_filter_command:
  assumes "run_filter_command (labelled_Comparator C) (label_command c) f = Inr (f', l)"
  shows "run_filter_command C c (unlabel f) = Inr (unlabel f', l)"
proof (cases c)
  case (UpdateFilter element isAdding w)
  then show ?thesis using assms unlabel_updateFilter [of C element w isAdding f f' l] by simp
next
  case ClearFilter
  then show ?thesis using assms by (auto simp: Clear_def unlabel_def)
next
  case (ConfigureFilter m)
  then show ?thesis using assms by (auto simp: Configure_def unlabel_def)
qed

lemma unlabel_run_filter_commands:
  "run_filter_commands (labelled_Comparator C) (map label_command cs) f = Inr (f', l) \<Longrightarrow>
     run_filter_commands C cs (unlabel f) = Inr (unlabel f', l)"
proof (induction cs arbitrary: f f' l)
  case Nil
  then show ?case by simp
next
  case (Cons c cs)
  from Cons.prems obtain f1 l1 l2
    where s1: "run_filter_command (labelled_Comparator C) (label_command c) f = Inr (f1, l1)"
      and s2: "run_filter_commands (labelled_Comparator C) (map label_command cs) f1 = Inr (f', l2)"
      and l: "l = l1 @ l2"
    by (auto split: sum.splits prod.splits)
  from unlabel_run_filter_command [OF s1] Cons.IH [OF s2] l show ?case by simp
qed

lemma no_configure_never_flips:
  "\<not> list_ex is_configure cs \<Longrightarrow> never_flips C (map label_command cs) f"
proof (induction cs arbitrary: f)
  case Nil
  show ?case by simp
next
  case (Cons c cs)
  from Cons.prems have c: "\<not> is_configure c" and cs: "\<not> list_ex is_configure cs" by simp_all
  from c have "\<not> flips_polarity (label_command c) x" for x :: "('a \<times> bool) FilterList"
    by (cases c) simp_all
  with Cons.IH [OF cs] show ?case by (simp split: sum.splits)
qed

text \<open>
  C4. Through the filter's interface, an add of the opposite polarity to a list whose
  mode is set is rejected without a failed check: the command returns the list as it
  was, elements and mode, and logs one error. (\<^verbatim>\<open>AddWhitelisted\<close> and \<^verbatim>\<open>AddBlacklisted\<close>
  themselves would fail their check; the closure of \<^verbatim>\<open>UpdateFilterList\<close> tests the mode
  before it calls them.) And for every sequence of add, remove and clear commands, run on
  a list each of whose elements has the polarity of the list: no check fails, and the
  list never ends with an element added as whitelisted beside one added as blacklisted.
  The run on labelled elements is the run of the source on the bare elements.
\<close>

theorem opposite_polarity_add_rejected:
  "(isWhitelist f = Some w \<longrightarrow>
      run_filter_command Comparator (UpdateFilter element True (\<not> w)) f
        = Inr (f, [Log_FilterPolarityConflict (\<not> w)])) \<and>
   (single_polarity g \<and> \<not> list_ex is_configure cs \<longrightarrow>
      (\<exists>g' l. run_filter_commands (labelled_Comparator Comparator) (map label_command cs) g
                 = Inr (g', l) \<and>
               run_filter_commands Comparator cs (unlabel g) = Inr (unlabel g', l) \<and>
               single_polarity g' \<and>
               \<not> holds_both_polarities g'))"
proof (intro conjI impI)
  assume "isWhitelist f = Some w"
  then show "run_filter_command Comparator (UpdateFilter element True (\<not> w)) f
               = Inr (f, [Log_FilterPolarityConflict (\<not> w)])"
    by (simp add: updateFilter_conflict)
next
  assume a: "single_polarity g \<and> \<not> list_ex is_configure cs"
  then have nf: "never_flips (labelled_Comparator Comparator) (map label_command cs) g"
    by (simp add: no_configure_never_flips)
  from run_filter_commands_single_polarity [of g "labelled_Comparator Comparator" cs] a nf
  obtain g' l
    where r: "run_filter_commands (labelled_Comparator Comparator) (map label_command cs) g
                = Inr (g', l)"
      and p: "single_polarity g'"
    by blast
  from unlabel_run_filter_commands [OF r] single_polarity_not_both [OF p] r p
  show "\<exists>g' l. run_filter_commands (labelled_Comparator Comparator) (map label_command cs) g
                 = Inr (g', l) \<and>
               run_filter_commands Comparator cs (unlabel g) = Inr (unlabel g', l) \<and>
               single_polarity g' \<and>
               \<not> holds_both_polarities g'"
    by blast
qed

text \<open>
  At a whitelist that holds \<open>1\<close>, the add of \<open>2\<close> as blacklisted is rejected. And from the
  empty list: \<open>1\<close> is added as whitelisted, \<open>2\<close> as blacklisted is rejected, \<open>1\<close> is
  removed, the list is cleared, and \<open>3\<close> is added as blacklisted.
\<close>

theorem opposite_polarity_add_rejected_witness:
  "isWhitelist \<lparr> isWhitelist = Some True, elements = [1::nat] \<rparr> = Some True \<and>
   run_filter_command (=) (UpdateFilter (2::nat) True False)
       \<lparr> isWhitelist = Some True, elements = [1] \<rparr>
     = Inr (\<lparr> isWhitelist = Some True, elements = [1] \<rparr>, [Log_FilterPolarityConflict False]) \<and>
   single_polarity (FilterList_new None :: (nat \<times> bool) FilterList) \<and>
   \<not> list_ex is_configure
       [UpdateFilter (1::nat) True True, UpdateFilter 2 True False,
        UpdateFilter 1 False False, ClearFilter, UpdateFilter 3 True False] \<and>
   (\<exists>g' l. run_filter_commands (labelled_Comparator (=))
              (map label_command [UpdateFilter (1::nat) True True, UpdateFilter 2 True False,
                                  UpdateFilter 1 False False, ClearFilter,
                                  UpdateFilter 3 True False])
              (FilterList_new None) = Inr (g', l) \<and>
            run_filter_commands (=)
              [UpdateFilter (1::nat) True True, UpdateFilter 2 True False,
               UpdateFilter 1 False False, ClearFilter, UpdateFilter 3 True False]
              (unlabel (FilterList_new None)) = Inr (unlabel g', l) \<and>
            single_polarity g' \<and>
            \<not> holds_both_polarities g')"
proof -
  have sp: "single_polarity (FilterList_new None :: (nat \<times> bool) FilterList)"
    by (simp add: single_polarity_def FilterList_new_def)
  have nc: "\<not> list_ex is_configure
       [UpdateFilter (1::nat) True True, UpdateFilter 2 True False,
        UpdateFilter 1 False False, ClearFilter, UpdateFilter 3 True False]"
    by simp
  have m: "isWhitelist \<lparr> isWhitelist = Some True, elements = [1::nat] \<rparr> = Some True"
    by simp
  note t = opposite_polarity_add_rejected
         [of "\<lparr> isWhitelist = Some True, elements = [1::nat] \<rparr>" True "(=)" 2
             "FilterList_new None"
             "[UpdateFilter (1::nat) True True, UpdateFilter 2 True False,
               UpdateFilter 1 False False, ClearFilter, UpdateFilter 3 True False]"]
  from t [THEN conjunct1, THEN mp, OF m]
  have r: "run_filter_command (=) (UpdateFilter (2::nat) True False)
       \<lparr> isWhitelist = Some True, elements = [1] \<rparr>
     = Inr (\<lparr> isWhitelist = Some True, elements = [1] \<rparr>, [Log_FilterPolarityConflict False])"
    by simp
  from t [THEN conjunct2, THEN mp, OF conjI [OF sp nc]]
  have q: "\<exists>g' l. run_filter_commands (labelled_Comparator (=))
              (map label_command [UpdateFilter (1::nat) True True, UpdateFilter 2 True False,
                                  UpdateFilter 1 False False, ClearFilter,
                                  UpdateFilter 3 True False])
              (FilterList_new None) = Inr (g', l) \<and>
            run_filter_commands (=)
              [UpdateFilter (1::nat) True True, UpdateFilter 2 True False,
               UpdateFilter 1 False False, ClearFilter, UpdateFilter 3 True False]
              (unlabel (FilterList_new None)) = Inr (unlabel g', l) \<and>
            single_polarity g' \<and>
            \<not> holds_both_polarities g'" .
  from m r sp nc q show ?thesis by blast
qed

text \<open>What that run leaves: the blacklist that holds \<open>3\<close>, with the one rejection logged.\<close>

lemma add_remove_clear_run_value:
  "run_filter_commands (=)
     [UpdateFilter (1::nat) True True, UpdateFilter 2 True False,
      UpdateFilter 1 False False, ClearFilter, UpdateFilter 3 True False]
     (FilterList_new None)
     = Inr (\<lparr> isWhitelist = Some False, elements = [3] \<rparr>, [Log_FilterPolarityConflict False])"
  by (auto simp: FilterList_new_def updateFilter_def IsAWhitelist_def AddWhitelisted_def
                 AddBlacklisted_def Remove_def Clear_def)

section \<open>Verification: the composite view test\<close>

lemma ShouldRenderFor_ViewFamily_value:
  "rThread \<or> gThread \<Longrightarrow>
   ShouldRenderFor_ViewFamily rThread gThread vf fam =
     Inr (\<not> ExcludeAll vf \<and>
          ((rThread \<and> IsAllowed (=) (byScene_RT vf) (Scene fam)) \<or>
           (gThread \<and> IsAllowed (=) (byScene_GT vf) (Scene fam))) \<and>
          ((rThread \<and> IsAllowed (=) (byRenderTarget_RT vf) (RenderTarget fam)) \<or>
           (gThread \<and> IsAllowed (=) (byRenderTarget_GT vf) (RenderTarget fam))))"
  by (simp add: ShouldRenderFor_ViewFamily_def)

lemma ShouldRenderFor_View_value:
  assumes "rThread \<or> gThread"
  shows "ShouldRenderFor_View rThread gThread vf view =
     Inr (\<not> ExcludeAll vf \<and>
          ((rThread \<and> IsAllowed (=) (byScene_RT vf) (Scene (Family view))) \<or>
           (gThread \<and> IsAllowed (=) (byScene_GT vf) (Scene (Family view)))) \<and>
          ((rThread \<and> IsAllowed (=) (byRenderTarget_RT vf) (RenderTarget (Family view))) \<or>
           (gThread \<and> IsAllowed (=) (byRenderTarget_GT vf) (RenderTarget (Family view)))) \<and>
          ((rThread \<and> IsAllowed (=) (byPlayerIndex_RT vf) (PlayerIndex view)) \<or>
           (gThread \<and> IsAllowed (=) (byPlayerIndex_GT vf) (PlayerIndex view))) \<and>
          ((rThread \<and> IsAllowed (=) (byViewActor_RT vf) (ViewActor view)) \<or>
           (gThread \<and> IsAllowed (=) (byViewActor_GT vf) (ViewActor view))))"
proof (cases "ShouldRenderFor_ViewFamily rThread gThread vf (Family view)")
  case (Inl e)
  with ShouldRenderFor_ViewFamily_value [OF assms, of vf "Family view"] show ?thesis by simp
next
  case (Inr b)
  with ShouldRenderFor_ViewFamily_value [OF assms, of vf "Family view"]
  have b: "b = (\<not> ExcludeAll vf \<and>
          ((rThread \<and> IsAllowed (=) (byScene_RT vf) (Scene (Family view))) \<or>
           (gThread \<and> IsAllowed (=) (byScene_GT vf) (Scene (Family view)))) \<and>
          ((rThread \<and> IsAllowed (=) (byRenderTarget_RT vf) (RenderTarget (Family view))) \<or>
           (gThread \<and> IsAllowed (=) (byRenderTarget_GT vf) (RenderTarget (Family view)))))"
    by simp
  show ?thesis
  proof (cases b)
    case True
    with Inr assms b show ?thesis by (simp add: ShouldRenderFor_View_def)
  next
    case False
    with Inr assms b show ?thesis by (auto simp: ShouldRenderFor_View_def)
  qed
qed

text \<open>
  C6. On the render thread the full-view test is true exactly when \<^verbatim>\<open>ExcludeAll\<close> is
  false and the render-thread copies of the scene, render-target, player-index and
  view-actor filters each allow the view's attribute; on the game thread the same holds
  with the game-thread copies. In general, on a thread for which one of the two thread
  tests answers true, each sub-test is the disjunction the source writes. A thread for
  which neither answers true fails the check. Since the result is the conjunction, one
  rejecting sub-filter, or \<^verbatim>\<open>ExcludeAll\<close>, makes it false.
\<close>

theorem ShouldRenderFor_View_composite:
  "ShouldRenderFor_View True False vf view =
     Inr (\<not> ExcludeAll vf \<and>
          IsAllowed (=) (byScene_RT vf) (Scene (Family view)) \<and>
          IsAllowed (=) (byRenderTarget_RT vf) (RenderTarget (Family view)) \<and>
          IsAllowed (=) (byPlayerIndex_RT vf) (PlayerIndex view) \<and>
          IsAllowed (=) (byViewActor_RT vf) (ViewActor view)) \<and>
   ShouldRenderFor_View False True vf view =
     Inr (\<not> ExcludeAll vf \<and>
          IsAllowed (=) (byScene_GT vf) (Scene (Family view)) \<and>
          IsAllowed (=) (byRenderTarget_GT vf) (RenderTarget (Family view)) \<and>
          IsAllowed (=) (byPlayerIndex_GT vf) (PlayerIndex view) \<and>
          IsAllowed (=) (byViewActor_GT vf) (ViewActor view)) \<and>
   ShouldRenderFor_View False False vf view = Inl AssertionFailed \<and>
   (rThread \<or> gThread \<longrightarrow>
    ShouldRenderFor_View rThread gThread vf view =
     Inr (\<not> ExcludeAll vf \<and>
          ((rThread \<and> IsAllowed (=) (byScene_RT vf) (Scene (Family view))) \<or>
           (gThread \<and> IsAllowed (=) (byScene_GT vf) (Scene (Family view)))) \<and>
          ((rThread \<and> IsAllowed (=) (byRenderTarget_RT vf) (RenderTarget (Family view))) \<or>
           (gThread \<and> IsAllowed (=) (byRenderTarget_GT vf) (RenderTarget (Family view)))) \<and>
          ((rThread \<and> IsAllowed (=) (byPlayerIndex_RT vf) (PlayerIndex view)) \<or>
           (gThread \<and> IsAllowed (=) (byPlayerIndex_GT vf) (PlayerIndex view))) \<and>
          ((rThread \<and> IsAllowed (=) (byViewActor_RT vf) (ViewActor view)) \<or>
           (gThread \<and> IsAllowed (=) (byViewActor_GT vf) (ViewActor view)))))"
proof (intro conjI impI)
  show "ShouldRenderFor_View True False vf view =
     Inr (\<not> ExcludeAll vf \<and>
          IsAllowed (=) (byScene_RT vf) (Scene (Family view)) \<and>
          IsAllowed (=) (byRenderTarget_RT vf) (RenderTarget (Family view)) \<and>
          IsAllowed (=) (byPlayerIndex_RT vf) (PlayerIndex view) \<and>
          IsAllowed (=) (byViewActor_RT vf) (ViewActor view))"
    using ShouldRenderFor_View_value [of True False vf view] by simp
  show "ShouldRenderFor_View False True vf view =
     Inr (\<not> ExcludeAll vf \<and>
          IsAllowed (=) (byScene_GT vf) (Scene (Family view)) \<and>
          IsAllowed (=) (byRenderTarget_GT vf) (RenderTarget (Family view)) \<and>
          IsAllowed (=) (byPlayerIndex_GT vf) (PlayerIndex view) \<and>
          IsAllowed (=) (byViewActor_GT vf) (ViewActor view))"
    using ShouldRenderFor_View_value [of False True vf view] by simp
  show "ShouldRenderFor_View False False vf view = Inl AssertionFailed"
    by (simp add: ShouldRenderFor_View_def)
next
  assume "rThread \<or> gThread"
  then show "ShouldRenderFor_View rThread gThread vf view =
     Inr (\<not> ExcludeAll vf \<and>
          ((rThread \<and> IsAllowed (=) (byScene_RT vf) (Scene (Family view))) \<or>
           (gThread \<and> IsAllowed (=) (byScene_GT vf) (Scene (Family view)))) \<and>
          ((rThread \<and> IsAllowed (=) (byRenderTarget_RT vf) (RenderTarget (Family view))) \<or>
           (gThread \<and> IsAllowed (=) (byRenderTarget_GT vf) (RenderTarget (Family view)))) \<and>
          ((rThread \<and> IsAllowed (=) (byPlayerIndex_RT vf) (PlayerIndex view)) \<or>
           (gThread \<and> IsAllowed (=) (byPlayerIndex_GT vf) (PlayerIndex view))) \<and>
          ((rThread \<and> IsAllowed (=) (byViewActor_RT vf) (ViewActor view)) \<or>
           (gThread \<and> IsAllowed (=) (byViewActor_GT vf) (ViewActor view))))"
    by (rule ShouldRenderFor_View_value)
qed

theorem ShouldRenderFor_View_composite_witness:
  "(True \<or> False) \<and>
   ShouldRenderFor_View True False example_filter example_view = Inr True \<and>
   ShouldRenderFor_View True False example_filter (example_view\<lparr> PlayerIndex := 1 \<rparr>) = Inr False \<and>
   ShouldRenderFor_View True False (example_filter\<lparr> ExcludeAll := True \<rparr>) example_view = Inr False"
  using ShouldRenderFor_View_composite [of example_filter example_view True False]
        ShouldRenderFor_View_composite [of example_filter "example_view\<lparr> PlayerIndex := 1 \<rparr>" True False]
        ShouldRenderFor_View_composite [of "example_filter\<lparr> ExcludeAll := True \<rparr>" example_view True False]
  by (simp add: example_filter_def example_view_def IsAllowed_def FilterList_new_def)

section \<open>Verification: the per-view cache\<close>

lemma TMap_Find_Add: "TMap_Find (TMap_Add k v m) k' = (if k' = k then Some v else TMap_Find m k')"
  by (simp add: TMap_Find_def TMap_Add_def update_conv')

lemma TMap_Find_Remove: "TMap_Find (TMap_Remove k m) k' = (if k' = k then None else TMap_Find m k')"
  by (simp add: TMap_Find_def TMap_Remove_def delete_conv')

lemma TMap_ok_Add: "TMap_ok m \<Longrightarrow> TMap_ok (TMap_Add k v m)"
  by (simp add: TMap_ok_def TMap_Add_def distinct_update)

lemma TMap_ok_Remove: "TMap_ok m \<Longrightarrow> TMap_ok (TMap_Remove k m)"
  by (simp add: TMap_ok_def TMap_Remove_def distinct_delete)

lemma TMap_Find_keys: "(TMap_Find m k \<noteq> None) = (k \<in> set (TMap_GetKeys m))"
  by (simp add: TMap_Find_def TMap_GetKeys_def map_of_eq_None_iff)

lemma int32_wrap_id: "- 2147483648 \<le> x \<Longrightarrow> x \<le> INT32_MAX \<Longrightarrow> int32_wrap x = x"
  by (simp add: int32_wrap_def INT32_MAX_def)

text \<open>The loop, key by key: the keys in the buffer are ticked, every other key is left alone.\<close>

lemma Tick_loop_pointwise:
  assumes "distinct ks" and "\<forall>k \<in> set ks. TMap_Find (dataByViewID s) k \<noteq> None"
    and "TMap_ok (dataByViewID s)"
  shows "\<exists>s'. Tick_loop ks s = Inr s' \<and>
           CleanupFrameThreshold s' = CleanupFrameThreshold s \<and>
           CleanupPreventionByViewID s' = CleanupPreventionByViewID s \<and>
           viewIDBuffer s' = viewIDBuffer s \<and>
           TMap_ok (dataByViewID s') \<and>
           (\<forall>k. TMap_Find (dataByViewID s') k =
                  (if k \<in> set ks
                   then Option.bind (TMap_Find (dataByViewID s) k)
                          (tick_entry (CleanupFrameThreshold s) (CleanupPreventionByViewID s) k)
                   else TMap_Find (dataByViewID s) k))"
  using assms
proof (induction ks arbitrary: s)
  case Nil
  then show ?case by simp
next
  case (Cons k ks)
  from Cons.prems obtain d where d: "TMap_Find (dataByViewID s) k = Some d" by auto
  from Cons.prems have kks: "k \<notin> set ks" and dks: "distinct ks" by simp_all
  define s1 where "s1 =
     (if k \<in> CleanupPreventionByViewID s then s
      else if FramesSinceAccess d > CleanupFrameThreshold s
      then s\<lparr> dataByViewID := TMap_Remove k (dataByViewID s) \<rparr>
      else s\<lparr> dataByViewID :=
               TMap_Add k (d\<lparr> FramesSinceAccess := int32_wrap (FramesSinceAccess d + 1) \<rparr>)
                 (dataByViewID s) \<rparr>)"
  have step: "Tick_loop (k # ks) s = Tick_loop ks s1"
    using d by (simp add: s1_def)
  have keep: "CleanupFrameThreshold s1 = CleanupFrameThreshold s"
             "CleanupPreventionByViewID s1 = CleanupPreventionByViewID s"
             "viewIDBuffer s1 = viewIDBuffer s"
    by (simp_all add: s1_def)
  have ok1: "TMap_ok (dataByViewID s1)"
    using Cons.prems(3) by (simp add: s1_def TMap_ok_Add TMap_ok_Remove)
  have look1: "TMap_Find (dataByViewID s1) q =
      (if q = k
       then tick_entry (CleanupFrameThreshold s) (CleanupPreventionByViewID s) k d
       else TMap_Find (dataByViewID s) q)" for q
    using d by (simp add: s1_def tick_entry_def TMap_Find_Add TMap_Find_Remove)
  have pres1: "\<forall>q \<in> set ks. TMap_Find (dataByViewID s1) q \<noteq> None"
    using Cons.prems(2) kks by (auto simp: look1)
  from Cons.IH [OF dks pres1 ok1] obtain s' where
    r: "Tick_loop ks s1 = Inr s'"
    and k': "CleanupFrameThreshold s' = CleanupFrameThreshold s1"
            "CleanupPreventionByViewID s' = CleanupPreventionByViewID s1"
            "viewIDBuffer s' = viewIDBuffer s1"
    and ok': "TMap_ok (dataByViewID s')"
    and look': "\<forall>q. TMap_Find (dataByViewID s') q =
                  (if q \<in> set ks
                   then Option.bind (TMap_Find (dataByViewID s1) q)
                          (tick_entry (CleanupFrameThreshold s1) (CleanupPreventionByViewID s1) q)
                   else TMap_Find (dataByViewID s1) q)"
    by blast
  have "\<forall>q. TMap_Find (dataByViewID s') q =
                  (if q \<in> set (k # ks)
                   then Option.bind (TMap_Find (dataByViewID s) q)
                          (tick_entry (CleanupFrameThreshold s) (CleanupPreventionByViewID s) q)
                   else TMap_Find (dataByViewID s) q)"
    using look' look1 kks d keep by auto
  with r step k' keep ok' show ?case by simp
qed

lemma Tick_pointwise:
  assumes "TMap_ok (dataByViewID s)"
  shows "\<exists>s'. Tick True s = Inr s' \<and>
           CleanupFrameThreshold s' = CleanupFrameThreshold s \<and>
           CleanupPreventionByViewID s' = CleanupPreventionByViewID s \<and>
           TMap_ok (dataByViewID s') \<and>
           (\<forall>k. TMap_Find (dataByViewID s') k =
                  Option.bind (TMap_Find (dataByViewID s) k)
                    (tick_entry (CleanupFrameThreshold s) (CleanupPreventionByViewID s) k))"
proof -
  let ?s1 = "s\<lparr> viewIDBuffer := TMap_GetKeys (dataByViewID s) \<rparr>"
  have a: "distinct (TMap_GetKeys (dataByViewID s))"
    using assms by (simp add: TMap_ok_def TMap_GetKeys_def)
  have b: "\<forall>k \<in> set (TMap_GetKeys (dataByViewID s)). TMap_Find (dataByViewID ?s1) k \<noteq> None"
    using TMap_Find_keys [of "dataByViewID s"] by auto
  have c: "TMap_ok (dataByViewID ?s1)" using assms by simp
  from Tick_loop_pointwise [OF a b c] obtain s' where
    r: "Tick_loop (TMap_GetKeys (dataByViewID s)) ?s1 = Inr s'"
    and k: "CleanupFrameThreshold s' = CleanupFrameThreshold s"
           "CleanupPreventionByViewID s' = CleanupPreventionByViewID s"
           "TMap_ok (dataByViewID s')"
    and look: "\<forall>k. TMap_Find (dataByViewID s') k =
                  (if k \<in> set (TMap_GetKeys (dataByViewID s))
                   then Option.bind (TMap_Find (dataByViewID s) k)
                          (tick_entry (CleanupFrameThreshold s) (CleanupPreventionByViewID s) k)
                   else TMap_Find (dataByViewID s) k)"
    by auto
  have "\<forall>k. TMap_Find (dataByViewID s') k =
                  Option.bind (TMap_Find (dataByViewID s) k)
                    (tick_entry (CleanupFrameThreshold s) (CleanupPreventionByViewID s) k)"
  proof
    fix k
    show "TMap_Find (dataByViewID s') k =
                  Option.bind (TMap_Find (dataByViewID s) k)
                    (tick_entry (CleanupFrameThreshold s) (CleanupPreventionByViewID s) k)"
    proof (cases "k \<in> set (TMap_GetKeys (dataByViewID s))")
      case True
      then show ?thesis using look by simp
    next
      case False
      then have "TMap_Find (dataByViewID s) k = None" using TMap_Find_keys [of "dataByViewID s" k] by simp
      then show ?thesis using look False by simp
    qed
  qed
  with r k show ?thesis by (simp add: Tick_def Let_def)
qed

lemma Ticks_protected:
  "TMap_ok (dataByViewID s) \<Longrightarrow> k \<in> CleanupPreventionByViewID s \<Longrightarrow>
     \<exists>s'. Ticks True n s = Inr s' \<and>
          TMap_Find (dataByViewID s') k = TMap_Find (dataByViewID s) k"
proof (induction n arbitrary: s)
  case 0
  then show ?case by simp
next
  case (Suc n)
  from Tick_pointwise [OF Suc.prems(1)] obtain s1 where
    t: "Tick True s = Inr s1"
    and p: "CleanupPreventionByViewID s1 = CleanupPreventionByViewID s"
    and ok: "TMap_ok (dataByViewID s1)"
    and look: "\<forall>q. TMap_Find (dataByViewID s1) q =
                  Option.bind (TMap_Find (dataByViewID s) q)
                    (tick_entry (CleanupFrameThreshold s) (CleanupPreventionByViewID s) q)"
    by blast
  from look Suc.prems(2)
  have same: "TMap_Find (dataByViewID s1) k = TMap_Find (dataByViewID s) k"
    by (cases "TMap_Find (dataByViewID s) k") (simp_all add: tick_entry_def)
  from Suc.prems(2) p have "k \<in> CleanupPreventionByViewID s1" by simp
  from Suc.IH [OF ok this] t same show ?case by auto
qed

lemma Ticks_absent:
  "TMap_ok (dataByViewID s) \<Longrightarrow> TMap_Find (dataByViewID s) k = None \<Longrightarrow>
     \<exists>s'. Ticks True n s = Inr s' \<and> TMap_Find (dataByViewID s') k = None"
proof (induction n arbitrary: s)
  case 0
  then show ?case by simp
next
  case (Suc n)
  from Tick_pointwise [OF Suc.prems(1)] obtain s1 where
    t: "Tick True s = Inr s1"
    and ok: "TMap_ok (dataByViewID s1)"
    and look: "\<forall>q. TMap_Find (dataByViewID s1) q =
                  Option.bind (TMap_Find (dataByViewID s) q)
                    (tick_entry (CleanupFrameThreshold s) (CleanupPreventionByViewID s) q)"
    by blast
  from look Suc.prems(2) have "TMap_Find (dataByViewID s1) k = None" by simp
  from Suc.IH [OF ok this] t show ?case by auto
qed

text \<open>An idle, unprotected entry counts the ticks for as long as its count is at most the threshold.\<close>

lemma Ticks_counting:
  "TMap_ok (dataByViewID s) \<Longrightarrow> k \<notin> CleanupPreventionByViewID s \<Longrightarrow>
   TMap_Find (dataByViewID s) k = Some d \<Longrightarrow> 0 \<le> FramesSinceAccess d \<Longrightarrow>
   FramesSinceAccess d + int n \<le> CleanupFrameThreshold s + 1 \<Longrightarrow>
   CleanupFrameThreshold s < INT32_MAX \<Longrightarrow>
     \<exists>s'. Ticks True n s = Inr s' \<and>
          TMap_Find (dataByViewID s') k
            = Some (d\<lparr> FramesSinceAccess := FramesSinceAccess d + int n \<rparr>) \<and>
          TMap_ok (dataByViewID s') \<and>
          CleanupFrameThreshold s' = CleanupFrameThreshold s \<and>
          CleanupPreventionByViewID s' = CleanupPreventionByViewID s"
proof (induction n arbitrary: s d)
  case 0
  then show ?case by simp
next
  case (Suc n)
  from Tick_pointwise [OF Suc.prems(1)] obtain s1 where
    t: "Tick True s = Inr s1"
    and th: "CleanupFrameThreshold s1 = CleanupFrameThreshold s"
    and p: "CleanupPreventionByViewID s1 = CleanupPreventionByViewID s"
    and ok: "TMap_ok (dataByViewID s1)"
    and look: "\<forall>q. TMap_Find (dataByViewID s1) q =
                  Option.bind (TMap_Find (dataByViewID s) q)
                    (tick_entry (CleanupFrameThreshold s) (CleanupPreventionByViewID s) q)"
    by blast
  let ?d1 = "d\<lparr> FramesSinceAccess := FramesSinceAccess d + 1 \<rparr>"
  from Suc.prems have le: "FramesSinceAccess d \<le> CleanupFrameThreshold s" by simp
  from Suc.prems le have "int32_wrap (FramesSinceAccess d + 1) = FramesSinceAccess d + 1"
    by (intro int32_wrap_id) (simp_all add: INT32_MAX_def)
  with look Suc.prems(2,3) le
  have l1: "TMap_Find (dataByViewID s1) k = Some ?d1"
    by (simp add: tick_entry_def)
  have a: "k \<notin> CleanupPreventionByViewID s1" using p Suc.prems(2) by simp
  have b: "0 \<le> FramesSinceAccess ?d1" using Suc.prems(4) by simp
  have c: "FramesSinceAccess ?d1 + int n \<le> CleanupFrameThreshold s1 + 1"
    using Suc.prems(5) th by simp
  have e: "CleanupFrameThreshold s1 < INT32_MAX" using Suc.prems(6) th by simp
  from Suc.IH [OF ok a l1 b c e] obtain s' where
    "Ticks True n s1 = Inr s'"
    "TMap_Find (dataByViewID s') k
       = Some (?d1\<lparr> FramesSinceAccess := FramesSinceAccess ?d1 + int n \<rparr>)"
    "TMap_ok (dataByViewID s')"
    "CleanupFrameThreshold s' = CleanupFrameThreshold s1"
    "CleanupPreventionByViewID s' = CleanupPreventionByViewID s1"
    by blast
  with t th p show ?case by (simp add: add.assoc)
qed

lemma Tick_evicts:
  assumes "TMap_ok (dataByViewID s)" and "k \<notin> CleanupPreventionByViewID s"
    and "TMap_Find (dataByViewID s) k = Some d"
    and "FramesSinceAccess d > CleanupFrameThreshold s"
  shows "\<exists>s'. Tick True s = Inr s' \<and> TMap_Find (dataByViewID s') k = None \<and>
               TMap_ok (dataByViewID s')"
proof -
  from Tick_pointwise [OF assms(1)] obtain s1 where
    t: "Tick True s = Inr s1"
    and ok: "TMap_ok (dataByViewID s1)"
    and look: "\<forall>q. TMap_Find (dataByViewID s1) q =
                  Option.bind (TMap_Find (dataByViewID s) q)
                    (tick_entry (CleanupFrameThreshold s) (CleanupPreventionByViewID s) q)"
    by blast
  from look assms(2,3,4) have "TMap_Find (dataByViewID s1) k = None"
    by (simp add: tick_entry_def)
  with t ok show ?thesis by simp
qed

lemma Ticks_add:
  "Ticks r (a + b) s = (case Ticks r a s of Inl e \<Rightarrow> Inl e | Inr s' \<Rightarrow> Ticks r b s')"
  by (induction a arbitrary: s) (auto split: sum.splits)

text \<open>
  From a fresh count of \<open>0\<close> and a threshold \<open>T\<close> with \<open>0 \<le> T < INT32_MAX\<close>: the entry is
  there after each of the first \<open>T + 1\<close> ticks and gone after tick \<open>T + 2\<close> and every later one.
\<close>

lemma Ticks_idle_present:
  assumes "TMap_ok (dataByViewID s)" and "k \<notin> CleanupPreventionByViewID s"
    and "TMap_Find (dataByViewID s) k = Some d" and "FramesSinceAccess d = 0"
    and "CleanupFrameThreshold s < INT32_MAX"
    and "int n \<le> CleanupFrameThreshold s + 1"
  shows "\<exists>s'. Ticks True n s = Inr s' \<and>
               TMap_Find (dataByViewID s') k = Some (d\<lparr> FramesSinceAccess := int n \<rparr>)"
  using Ticks_counting [OF assms(1,2,3), of n] assms(4,5,6) by auto

lemma Ticks_idle_evicted:
  assumes "TMap_ok (dataByViewID s)" and "k \<notin> CleanupPreventionByViewID s"
    and "TMap_Find (dataByViewID s) k = Some d" and "FramesSinceAccess d = 0"
    and "0 \<le> CleanupFrameThreshold s" and "CleanupFrameThreshold s < INT32_MAX"
    and "int n \<ge> CleanupFrameThreshold s + 2"
  shows "\<exists>s'. Ticks True n s = Inr s' \<and> TMap_Find (dataByViewID s') k = None"
proof -
  define m where "m = nat (CleanupFrameThreshold s + 1)"
  have m: "int m = CleanupFrameThreshold s + 1" using assms(5) by (simp add: m_def)
  from assms(7) m have "Suc m \<le> n" by linarith
  then obtain r where n: "n = m + Suc r"
    by (auto simp: le_iff_add)
  from Ticks_counting [OF assms(1,2,3), of m] assms(4,6) m obtain s1 where
    t1: "Ticks True m s = Inr s1"
    and l1: "TMap_Find (dataByViewID s1) k
               = Some (d\<lparr> FramesSinceAccess := CleanupFrameThreshold s + 1 \<rparr>)"
    and ok1: "TMap_ok (dataByViewID s1)"
    and th1: "CleanupFrameThreshold s1 = CleanupFrameThreshold s"
    and p1: "CleanupPreventionByViewID s1 = CleanupPreventionByViewID s"
    by auto
  have "k \<notin> CleanupPreventionByViewID s1" using p1 assms(2) by simp
  from Tick_evicts [OF ok1 this l1] th1 obtain s2 where
    t2: "Tick True s1 = Inr s2" and l2: "TMap_Find (dataByViewID s2) k = None"
    and ok2: "TMap_ok (dataByViewID s2)"
    by auto
  from Ticks_absent [OF ok2 l2, of r] obtain s3 where
    t3: "Ticks True r s2 = Inr s3" and l3: "TMap_Find (dataByViewID s3) k = None"
    by blast
  have a: "Ticks True (Suc r) s1 = Inr s3" using t2 t3 by simp
  have "Ticks True (m + Suc r) s = Inr s3"
    unfolding Ticks_add using t1 a by simp
  with n l3 show ?thesis by simp
qed

lemma FIntRect_ne_iff: "FIntRect_ne a b = (a \<noteq> b)"
  by (cases a; cases b) (auto simp: FIntRect_ne_def FIntPoint_ne_def FIntPoint.equality)

lemma DataForView_existing:
  assumes "State view = Some viewID" and "TMap_Find (dataByViewID s) viewID = Some d"
  shows "DataForView True construct Resample view s =
     (if FIntRect_ne (PixelSubset d) (ViewRect view)
      then Inr (s\<lparr> dataByViewID :=
                     TMap_Add viewID
                       (d\<lparr> FramesSinceAccess := 0,
                           User := Resample (User d) view (FIntRect_Size (PixelSubset d))
                                     (FIntRect_Size (ViewRect view))
                                     (FIntPoint_minus (MinPt (ViewRect view)) (MinPt (PixelSubset d))),
                           PixelSubset := ViewRect view \<rparr>)
                       (dataByViewID s) \<rparr>,
                Resample (User d) view (FIntRect_Size (PixelSubset d))
                  (FIntRect_Size (ViewRect view))
                  (FIntPoint_minus (MinPt (ViewRect view)) (MinPt (PixelSubset d))),
                [Call_Resample (FIntRect_Size (PixelSubset d)) (FIntRect_Size (ViewRect view))
                   (FIntPoint_minus (MinPt (ViewRect view)) (MinPt (PixelSubset d)))])
      else Inr (s\<lparr> dataByViewID :=
                     TMap_Add viewID (d\<lparr> FramesSinceAccess := 0 \<rparr>) (dataByViewID s) \<rparr>,
                User d, []))"
  using assms by (simp add: DataForView_def Let_def)

lemma DataForView_created:
  assumes "State view = Some viewID" and "TMap_Find (dataByViewID s) viewID = None"
  shows "DataForView True construct Resample view s =
     Inr (s\<lparr> dataByViewID :=
               TMap_Add viewID
                 \<lparr> User = construct view (ViewRect view), PixelSubset = ViewRect view,
                   FeatureLevel = FeatureLevel_of_view view, FramesSinceAccess = 0 \<rparr>
                 (TMap_Add viewID
                    \<lparr> User = construct view (ViewRect view), PixelSubset = ViewRect view,
                      FeatureLevel = FeatureLevel_of_view view, FramesSinceAccess = 0 \<rparr>
                    (dataByViewID s)) \<rparr>,
          construct view (ViewRect view), [Call_Constructor (ViewRect view)])"
  using assms by (simp add: DataForView_def Let_def FIntRect_ne_iff)

lemma DataForView_present:
  assumes "TMap_ok (dataByViewID s)" and "State view = Some viewID"
  shows "\<exists>s1 u calls d. DataForView True construct Resample view s = Inr (s1, u, calls) \<and>
           TMap_Find (dataByViewID s1) viewID = Some d \<and> FramesSinceAccess d = 0 \<and>
           TMap_ok (dataByViewID s1) \<and>
           CleanupFrameThreshold s1 = CleanupFrameThreshold s \<and>
           CleanupPreventionByViewID s1 = CleanupPreventionByViewID s"
proof (cases "TMap_Find (dataByViewID s) viewID")
  case None
  show ?thesis
    unfolding DataForView_created [OF assms(2) None]
    using assms(1) by (simp add: TMap_Find_Add TMap_ok_Add)
next
  case (Some d)
  show ?thesis
    unfolding DataForView_existing [OF assms(2) Some]
    using assms(1) by (simp add: TMap_Find_Add TMap_ok_Add)
qed

lemma Tick_keeps_fresh:
  assumes "TMap_ok (dataByViewID s)" and "TMap_Find (dataByViewID s) k = Some d"
    and "FramesSinceAccess d = 0" and "0 \<le> CleanupFrameThreshold s"
  shows "\<exists>s'. Tick True s = Inr s' \<and> TMap_Find (dataByViewID s') k \<noteq> None \<and>
               TMap_ok (dataByViewID s') \<and> CleanupFrameThreshold s' = CleanupFrameThreshold s"
proof -
  from Tick_pointwise [OF assms(1)] obtain s1 where
    t: "Tick True s = Inr s1"
    and th: "CleanupFrameThreshold s1 = CleanupFrameThreshold s"
    and ok: "TMap_ok (dataByViewID s1)"
    and look: "\<forall>q. TMap_Find (dataByViewID s1) q =
                  Option.bind (TMap_Find (dataByViewID s) q)
                    (tick_entry (CleanupFrameThreshold s) (CleanupPreventionByViewID s) q)"
    by blast
  from look assms(2,3,4) have "TMap_Find (dataByViewID s1) k \<noteq> None"
    by (simp add: tick_entry_def)
  with t th ok show ?thesis by simp
qed

lemma accessed_frames_present:
  "TMap_ok (dataByViewID s) \<Longrightarrow> 0 \<le> CleanupFrameThreshold s \<Longrightarrow>
   \<forall>v \<in> set views. State v = Some k \<Longrightarrow>
     \<exists>s'. accessed_frames True construct Resample views s = Inr s' \<and>
          (views \<noteq> [] \<or> TMap_Find (dataByViewID s) k \<noteq> None
             \<longrightarrow> TMap_Find (dataByViewID s') k \<noteq> None)"
proof (induction views arbitrary: s)
  case Nil
  then show ?case by simp
next
  case (Cons v views)
  from Cons.prems(3) have st: "State v = Some k" by simp
  from DataForView_present [OF Cons.prems(1) st, of construct Resample]
  obtain s1 u calls d where
    a: "DataForView True construct Resample v s = Inr (s1, u, calls)"
    and l1: "TMap_Find (dataByViewID s1) k = Some d" and f1: "FramesSinceAccess d = 0"
    and ok1: "TMap_ok (dataByViewID s1)"
    and th1: "CleanupFrameThreshold s1 = CleanupFrameThreshold s"
    by blast
  from Tick_keeps_fresh [OF ok1 l1 f1] th1 Cons.prems(2) obtain s2 where
    t: "Tick True s1 = Inr s2" and l2: "TMap_Find (dataByViewID s2) k \<noteq> None"
    and ok2: "TMap_ok (dataByViewID s2)"
    and th2: "CleanupFrameThreshold s2 = CleanupFrameThreshold s1"
    by auto
  have "0 \<le> CleanupFrameThreshold s2" using th2 th1 Cons.prems(2) by simp
  moreover have "\<forall>v \<in> set views. State v = Some k" using Cons.prems(3) by simp
  ultimately obtain s' where
    "accessed_frames True construct Resample views s2 = Inr s'"
    "views \<noteq> [] \<or> TMap_Find (dataByViewID s2) k \<noteq> None
       \<longrightarrow> TMap_Find (dataByViewID s') k \<noteq> None"
    using Cons.IH [OF ok2] by blast
  with a t l2 show ?case by simp
qed

text \<open>The example cache is what one fetch leaves of an empty cache.\<close>

lemma example_cache_reached:
  "DataForView True example_construct example_Resample example_same_view PerViewData_new
     = Inr (example_cache, 0, [Call_Constructor (ViewRect example_same_view)])"
  by (simp add: DataForView_def PerViewData_new_def example_cache_def example_entry_def
                example_same_view_def example_construct_def TMap_Find_def TMap_Add_def
                FIntRect_ne_def FIntPoint_ne_def Let_def)

text \<open>
  C2, as the code has it. In a cache with threshold \<open>T\<close>, \<open>0 \<le> T < INT32_MAX\<close>, an
  unprotected entry that was just fetched and is not fetched again is present, with count
  \<open>n\<close>, after \<open>n\<close> ticks for every \<open>n \<le> T + 1\<close>, and absent after \<open>n\<close> ticks for every
  \<open>n \<ge> T + 2\<close>. With \<open>0 \<le> T\<close>, an entry fetched before each tick is present after any
  number of such frames. A protected entry is unchanged by any number of ticks.
\<close>

theorem idle_entry_evicted_on_tick_threshold_plus_two:
  assumes "TMap_ok (dataByViewID s)"
  shows
  "(k \<notin> CleanupPreventionByViewID s \<and> TMap_Find (dataByViewID s) k = Some d \<and>
    FramesSinceAccess d = 0 \<and> 0 \<le> CleanupFrameThreshold s \<and>
    CleanupFrameThreshold s < INT32_MAX \<longrightarrow>
      (\<forall>n. int n \<le> CleanupFrameThreshold s + 1 \<longrightarrow>
         (\<exists>s'. Ticks True n s = Inr s' \<and>
               TMap_Find (dataByViewID s') k = Some (d\<lparr> FramesSinceAccess := int n \<rparr>))) \<and>
      (\<forall>n. CleanupFrameThreshold s + 2 \<le> int n \<longrightarrow>
         (\<exists>s'. Ticks True n s = Inr s' \<and> TMap_Find (dataByViewID s') k = None))) \<and>
   (0 \<le> CleanupFrameThreshold s \<and> views \<noteq> [] \<and> (\<forall>v \<in> set views. State v = Some k) \<longrightarrow>
      (\<exists>s'. accessed_frames True construct Resample views s = Inr s' \<and>
            TMap_Find (dataByViewID s') k \<noteq> None)) \<and>
   (k \<in> CleanupPreventionByViewID s \<longrightarrow>
      (\<forall>n. \<exists>s'. Ticks True n s = Inr s' \<and>
                 TMap_Find (dataByViewID s') k = TMap_Find (dataByViewID s) k))"
proof (intro conjI impI allI)
  fix n
  assume a: "k \<notin> CleanupPreventionByViewID s \<and> TMap_Find (dataByViewID s) k = Some d \<and>
    FramesSinceAccess d = 0 \<and> 0 \<le> CleanupFrameThreshold s \<and>
    CleanupFrameThreshold s < INT32_MAX"
  {
    assume "int n \<le> CleanupFrameThreshold s + 1"
    with a Ticks_idle_present [OF assms, of k d n]
    show "\<exists>s'. Ticks True n s = Inr s' \<and>
               TMap_Find (dataByViewID s') k = Some (d\<lparr> FramesSinceAccess := int n \<rparr>)"
      by simp
  }
  {
    assume "CleanupFrameThreshold s + 2 \<le> int n"
    with a Ticks_idle_evicted [OF assms, of k d n]
    show "\<exists>s'. Ticks True n s = Inr s' \<and> TMap_Find (dataByViewID s') k = None"
      by simp
  }
next
  assume "0 \<le> CleanupFrameThreshold s \<and> views \<noteq> [] \<and> (\<forall>v \<in> set views. State v = Some k)"
  with accessed_frames_present [OF assms, of views k construct Resample]
  show "\<exists>s'. accessed_frames True construct Resample views s = Inr s' \<and>
            TMap_Find (dataByViewID s') k \<noteq> None"
    by blast
next
  fix n
  assume "k \<in> CleanupPreventionByViewID s"
  with Ticks_protected [OF assms, of k n]
  show "\<exists>s'. Ticks True n s = Inr s' \<and>
             TMap_Find (dataByViewID s') k = TMap_Find (dataByViewID s) k"
    by simp
qed

text \<open>
  C2 as stated fails: with the default threshold of 60, an idle unprotected entry is
  still in the cache after 61 ticks.
\<close>

theorem idle_entry_present_after_threshold_plus_one:
  "\<exists>s'. Ticks True 61 example_cache = Inr s' \<and>
        TMap_Find (dataByViewID s') 7 = Some (example_entry\<lparr> FramesSinceAccess := 61 \<rparr>) \<and>
        CleanupFrameThreshold example_cache + 1 = 61"
proof -
  have ok: "TMap_ok (dataByViewID example_cache)"
    by (simp add: example_cache_def TMap_ok_def)
  have "\<exists>s'. Ticks True 61 example_cache = Inr s' \<and>
          TMap_Find (dataByViewID s') 7 = Some (example_entry\<lparr> FramesSinceAccess := int 61 \<rparr>)"
    by (rule Ticks_idle_present [OF ok])
       (simp_all add: example_cache_def example_entry_def TMap_Find_def INT32_MAX_def)
  then show ?thesis by (simp add: example_cache_def)
qed

theorem idle_entry_evicted_on_tick_threshold_plus_two_witness:
  "TMap_ok (dataByViewID example_cache) \<and>
   7 \<notin> CleanupPreventionByViewID example_cache \<and>
   TMap_Find (dataByViewID example_cache) 7 = Some example_entry \<and>
   FramesSinceAccess example_entry = 0 \<and>
   0 \<le> CleanupFrameThreshold example_cache \<and>
   CleanupFrameThreshold example_cache < INT32_MAX \<and>
   int 61 \<le> CleanupFrameThreshold example_cache + 1 \<and>
   (\<exists>s'. Ticks True 61 example_cache = Inr s' \<and>
         TMap_Find (dataByViewID s') 7 = Some (example_entry\<lparr> FramesSinceAccess := int 61 \<rparr>)) \<and>
   CleanupFrameThreshold example_cache + 2 \<le> int 62 \<and>
   (\<exists>s'. Ticks True 62 example_cache = Inr s' \<and> TMap_Find (dataByViewID s') 7 = None) \<and>
   [example_same_view, example_resized_view] \<noteq> [] \<and>
   State example_same_view = Some 7 \<and> State example_resized_view = Some 7 \<and>
   (\<exists>s'. accessed_frames True example_construct example_Resample
           [example_same_view, example_resized_view] example_cache = Inr s' \<and>
         TMap_Find (dataByViewID s') 7 \<noteq> None) \<and>
   TMap_ok (dataByViewID (example_cache\<lparr> CleanupPreventionByViewID := {7} \<rparr>)) \<and>
   7 \<in> CleanupPreventionByViewID (example_cache\<lparr> CleanupPreventionByViewID := {7} \<rparr>) \<and>
   (\<exists>s'. Ticks True 10000 (example_cache\<lparr> CleanupPreventionByViewID := {7} \<rparr>) = Inr s' \<and>
         TMap_Find (dataByViewID s') 7 = Some example_entry)"
proof -
  have ok: "TMap_ok (dataByViewID example_cache)"
    by (simp add: example_cache_def TMap_ok_def)
  have ok': "TMap_ok (dataByViewID (example_cache\<lparr> CleanupPreventionByViewID := {7} \<rparr>))"
    by (simp add: example_cache_def TMap_ok_def)
  have h: "7 \<notin> CleanupPreventionByViewID example_cache"
          "TMap_Find (dataByViewID example_cache) 7 = Some example_entry"
          "FramesSinceAccess example_entry = 0"
          "0 \<le> CleanupFrameThreshold example_cache"
          "CleanupFrameThreshold example_cache < INT32_MAX"
          "int 61 \<le> CleanupFrameThreshold example_cache + 1"
          "CleanupFrameThreshold example_cache + 2 \<le> int 62"
    by (simp_all add: example_cache_def example_entry_def TMap_Find_def INT32_MAX_def)
  have v: "State example_same_view = Some 7" "State example_resized_view = Some 7"
    by (simp_all add: example_same_view_def example_resized_view_def)
  have p: "7 \<in> CleanupPreventionByViewID (example_cache\<lparr> CleanupPreventionByViewID := {7} \<rparr>)"
          "TMap_Find (dataByViewID (example_cache\<lparr> CleanupPreventionByViewID := {7} \<rparr>)) 7
             = Some example_entry"
    by (simp_all add: example_cache_def TMap_Find_def)
  note t1 = idle_entry_evicted_on_tick_threshold_plus_two
              [OF ok, of 7 example_entry "[example_same_view, example_resized_view]"
                  example_construct example_Resample]
  note t2 = idle_entry_evicted_on_tick_threshold_plus_two
              [OF ok', of 7 example_entry "[]" example_construct example_Resample]
  from t1 h have a: "\<exists>s'. Ticks True 61 example_cache = Inr s' \<and>
         TMap_Find (dataByViewID s') 7 = Some (example_entry\<lparr> FramesSinceAccess := int 61 \<rparr>)"
    by blast
  from t1 h have b: "\<exists>s'. Ticks True 62 example_cache = Inr s' \<and>
         TMap_Find (dataByViewID s') 7 = None"
    by blast
  from t1 h(4) v have c: "\<exists>s'. accessed_frames True example_construct example_Resample
           [example_same_view, example_resized_view] example_cache = Inr s' \<and>
         TMap_Find (dataByViewID s') 7 \<noteq> None"
    by simp
  from t2 p have d: "\<exists>s'. Ticks True 10000 (example_cache\<lparr> CleanupPreventionByViewID := {7} \<rparr>) = Inr s' \<and>
         TMap_Find (dataByViewID s') 7 = Some example_entry"
    by metis
  from ok ok' h v p(1) a b c d show ?thesis by simp
qed

text \<open>
  C8. For an entry that exists, a fetch with a view rectangle other than the cached
  \<^verbatim>\<open>PixelSubset\<close> calls \<^verbatim>\<open>Resample\<close> once and makes no other call into the user data: with
  the size of the cached rectangle, the size of the view's rectangle and the offset from
  the cached to the new minimum corner. It stores the result, the view's rectangle and a
  count of 0, and returns the resampled data. A fetch with the cached rectangle makes no
  call, and only resets the count.
\<close>

theorem DataForView_resamples_once:
  "State view = Some viewID \<and> TMap_Find (dataByViewID s) viewID = Some d \<longrightarrow>
     (ViewRect view \<noteq> PixelSubset d \<longrightarrow>
        (\<exists>s'. DataForView True construct Resample view s =
                 Inr (s',
                      Resample (User d) view (FIntRect_Size (PixelSubset d))
                        (FIntRect_Size (ViewRect view))
                        (FIntPoint_minus (MinPt (ViewRect view)) (MinPt (PixelSubset d))),
                      [Call_Resample (FIntRect_Size (PixelSubset d))
                         (FIntRect_Size (ViewRect view))
                         (FIntPoint_minus (MinPt (ViewRect view)) (MinPt (PixelSubset d)))]) \<and>
               TMap_Find (dataByViewID s') viewID =
                 Some (d\<lparr> FramesSinceAccess := 0,
                          User := Resample (User d) view (FIntRect_Size (PixelSubset d))
                                    (FIntRect_Size (ViewRect view))
                                    (FIntPoint_minus (MinPt (ViewRect view))
                                       (MinPt (PixelSubset d))),
                          PixelSubset := ViewRect view \<rparr>))) \<and>
     (ViewRect view = PixelSubset d \<longrightarrow>
        (\<exists>s'. DataForView True construct Resample view s = Inr (s', User d, []) \<and>
               TMap_Find (dataByViewID s') viewID = Some (d\<lparr> FramesSinceAccess := 0 \<rparr>)))"
proof (intro impI conjI)
  assume a: "State view = Some viewID \<and> TMap_Find (dataByViewID s) viewID = Some d"
  then have st: "State view = Some viewID"
    and f: "TMap_Find (dataByViewID s) viewID = Some d" by simp_all
  {
    assume "ViewRect view \<noteq> PixelSubset d"
    then have "FIntRect_ne (PixelSubset d) (ViewRect view)" by (auto simp: FIntRect_ne_iff)
    then show "\<exists>s'. DataForView True construct Resample view s =
                 Inr (s',
                      Resample (User d) view (FIntRect_Size (PixelSubset d))
                        (FIntRect_Size (ViewRect view))
                        (FIntPoint_minus (MinPt (ViewRect view)) (MinPt (PixelSubset d))),
                      [Call_Resample (FIntRect_Size (PixelSubset d))
                         (FIntRect_Size (ViewRect view))
                         (FIntPoint_minus (MinPt (ViewRect view)) (MinPt (PixelSubset d)))]) \<and>
               TMap_Find (dataByViewID s') viewID =
                 Some (d\<lparr> FramesSinceAccess := 0,
                          User := Resample (User d) view (FIntRect_Size (PixelSubset d))
                                    (FIntRect_Size (ViewRect view))
                                    (FIntPoint_minus (MinPt (ViewRect view))
                                       (MinPt (PixelSubset d))),
                          PixelSubset := ViewRect view \<rparr>)"
      unfolding DataForView_existing [OF st f] by (simp add: TMap_Find_Add)
  }
  {
    assume "ViewRect view = PixelSubset d"
    then have "\<not> FIntRect_ne (PixelSubset d) (ViewRect view)" by (simp add: FIntRect_ne_iff)
    then show "\<exists>s'. DataForView True construct Resample view s = Inr (s', User d, []) \<and>
               TMap_Find (dataByViewID s') viewID = Some (d\<lparr> FramesSinceAccess := 0 \<rparr>)"
      unfolding DataForView_existing [OF st f] by (simp add: TMap_Find_Add)
  }
qed

theorem DataForView_resamples_once_witness:
  "State example_resized_view = Some 7 \<and>
   TMap_Find (dataByViewID example_cache) 7 = Some example_entry \<and>
   ViewRect example_resized_view \<noteq> PixelSubset example_entry \<and>
   (\<exists>s'. DataForView True example_construct example_Resample example_resized_view example_cache =
            Inr (s', 1,
                 [Call_Resample \<lparr> X = 100, Y = 50 \<rparr> \<lparr> X = 200, Y = 100 \<rparr> \<lparr> X = 6, Y = 14 \<rparr>]) \<and>
          TMap_Find (dataByViewID s') 7 =
            Some (example_entry\<lparr> User := 1, PixelSubset := ViewRect example_resized_view \<rparr>)) \<and>
   State example_same_view = Some 7 \<and>
   ViewRect example_same_view = PixelSubset example_entry \<and>
   (\<exists>s'. DataForView True example_construct example_Resample example_same_view example_cache =
            Inr (s', 0, []) \<and>
          TMap_Find (dataByViewID s') 7 = Some example_entry)"
proof -
  have h: "State example_resized_view = Some 7"
          "TMap_Find (dataByViewID example_cache) 7 = Some example_entry"
          "ViewRect example_resized_view \<noteq> PixelSubset example_entry"
          "State example_same_view = Some 7"
          "ViewRect example_same_view = PixelSubset example_entry"
    by (simp_all add: example_resized_view_def example_same_view_def example_cache_def
                      example_entry_def TMap_Find_def)
  have e: "User example_entry = 0" "FramesSinceAccess example_entry = 0"
          "FIntRect_Size (PixelSubset example_entry) = \<lparr> X = 100, Y = 50 \<rparr>"
          "FIntRect_Size (ViewRect example_resized_view) = \<lparr> X = 200, Y = 100 \<rparr>"
          "FIntPoint_minus (MinPt (ViewRect example_resized_view)) (MinPt (PixelSubset example_entry))
             = \<lparr> X = 6, Y = 14 \<rparr>"
    by (simp_all add: example_entry_def example_resized_view_def FIntRect_Size_def
                      FIntPoint_minus_def int32_wrap_def)
  have u: "example_entry\<lparr> FramesSinceAccess := 0 \<rparr> = example_entry"
    by (simp add: example_entry_def)
  from DataForView_resamples_once
         [of example_resized_view 7 example_cache example_entry example_construct example_Resample]
       h(1,2,3)
  have a: "\<exists>s'. DataForView True example_construct example_Resample example_resized_view example_cache =
            Inr (s', 1,
                 [Call_Resample \<lparr> X = 100, Y = 50 \<rparr> \<lparr> X = 200, Y = 100 \<rparr> \<lparr> X = 6, Y = 14 \<rparr>]) \<and>
          TMap_Find (dataByViewID s') 7 =
            Some (example_entry\<lparr> User := 1, PixelSubset := ViewRect example_resized_view \<rparr>)"
    by (simp add: e u example_Resample_def)
  from DataForView_resamples_once
         [of example_same_view 7 example_cache example_entry example_construct example_Resample]
       h(2,4,5)
  have b: "\<exists>s'. DataForView True example_construct example_Resample example_same_view example_cache =
            Inr (s', 0, []) \<and>
          TMap_Find (dataByViewID s') 7 = Some example_entry"
    by (simp add: e u)
  from h a b show ?thesis by simp
qed

section \<open>Verification: GetDynamicMeshElementRange\<close>

text \<open>
  C9, as the code has it. A primitive index at or past the end of the relevance map is
  answered with the empty range: the call returns, and no check fails.
\<close>

theorem GetDynamicMeshElementRange_out_of_range:
  "length (PrimitiveViewRelevanceMap info) \<le> primitiveIndex \<longrightarrow>
     GetDynamicMeshElementRange info primitiveIndex = Inr FInt32Range_Empty"
  by (simp add: GetDynamicMeshElementRange_def)

theorem GetDynamicMeshElementRange_out_of_range_witness:
  "length (PrimitiveViewRelevanceMap example_primitives) \<le> 4294967295 \<and>
   GetDynamicMeshElementRange example_primitives 4294967295 = Inr FInt32Range_Empty"
  using GetDynamicMeshElementRange_out_of_range [of example_primitives 4294967295]
  by (simp add: example_primitives_def)

text \<open>
  C9 as stated fails: index 2 is out of range for a view with two primitives, and the
  call returns the empty range instead of failing an assertion.
\<close>

theorem GetDynamicMeshElementRange_no_assertion:
  "\<not> (\<forall>info primitiveIndex.
         length (PrimitiveViewRelevanceMap info) \<le> primitiveIndex \<longrightarrow>
           GetDynamicMeshElementRange info primitiveIndex = Inl AssertionFailed)"
proof
  assume "\<forall>info primitiveIndex.
            length (PrimitiveViewRelevanceMap info) \<le> primitiveIndex \<longrightarrow>
              GetDynamicMeshElementRange info primitiveIndex = Inl AssertionFailed"
  then have "length (PrimitiveViewRelevanceMap example_primitives) \<le> 2 \<longrightarrow>
               GetDynamicMeshElementRange example_primitives 2 = Inl AssertionFailed"
    by blast
  then show False
    by (simp add: example_primitives_def GetDynamicMeshElementRange_def)
qed

section \<open>Verification: the per-frame tick of a pass\<close>

lemma rebuild_loop_table:
  "\<forall>c \<in> set cs. objects w c \<noteq> None \<Longrightarrow>
     \<exists>w'. rebuild_loop cs w = Inr w' \<and>
          objects w' = objects w \<and>
          renderCommandQueue w' = renderCommandQueue w \<and>
          Components_GameThread (thePass w') = Components_GameThread (thePass w) \<and>
          (TMap_ok (ComponentProxies_RenderThread (thePass w))
             \<longrightarrow> TMap_ok (ComponentProxies_RenderThread (thePass w'))) \<and>
          (\<forall>q. TMap_Find (ComponentProxies_RenderThread (thePass w')) q =
                 (if q \<in> set cs then map_option renderThreadProxy (objects w q)
                  else TMap_Find (ComponentProxies_RenderThread (thePass w)) q))"
proof (induction cs arbitrary: w)
  case Nil
  then show ?case by simp
next
  case (Cons c cs)
  from Cons.prems obtain obj where obj: "objects w c = Some obj" by auto
  define w1 where "w1 =
     (if \<not> warnedAboutProxyHeapUsage (thePass w) \<and> length (renderThreadProxy obj) > MaxInlineProxyByteSize
      then w\<lparr> passLog := passLog w @ [Log_ProxyHeapUsage (length (renderThreadProxy obj))],
              thePass := (thePass w)\<lparr> warnedAboutProxyHeapUsage := True \<rparr> \<rparr>
      else w)"
  define w2 where "w2 =
     w1\<lparr> thePass := (thePass w1)\<lparr> ComponentProxies_RenderThread :=
                     TMap_Add c (renderThreadProxy obj) (ComponentProxies_RenderThread (thePass w1)) \<rparr> \<rparr>"
  have step: "rebuild_loop (c # cs) w = rebuild_loop cs w2"
    using obj by (simp add: w1_def w2_def Let_def)
  have same1: "objects w1 = objects w" "renderCommandQueue w1 = renderCommandQueue w"
    "Components_GameThread (thePass w1) = Components_GameThread (thePass w)"
    "ComponentProxies_RenderThread (thePass w1) = ComponentProxies_RenderThread (thePass w)"
    by (simp_all add: w1_def)
  have same2: "objects w2 = objects w" "renderCommandQueue w2 = renderCommandQueue w"
    "Components_GameThread (thePass w2) = Components_GameThread (thePass w)"
    "ComponentProxies_RenderThread (thePass w2)
       = TMap_Add c (renderThreadProxy obj) (ComponentProxies_RenderThread (thePass w))"
    using same1 by (simp_all add: w2_def)
  have "\<forall>q \<in> set cs. objects w2 q \<noteq> None" using Cons.prems same2(1) by simp
  from Cons.IH [OF this] obtain w' where
    r: "rebuild_loop cs w2 = Inr w'"
    and o: "objects w' = objects w2" "renderCommandQueue w' = renderCommandQueue w2"
           "Components_GameThread (thePass w') = Components_GameThread (thePass w2)"
    and ok: "TMap_ok (ComponentProxies_RenderThread (thePass w2))
               \<longrightarrow> TMap_ok (ComponentProxies_RenderThread (thePass w'))"
    and look: "\<forall>q. TMap_Find (ComponentProxies_RenderThread (thePass w')) q =
                 (if q \<in> set cs then map_option renderThreadProxy (objects w2 q)
                  else TMap_Find (ComponentProxies_RenderThread (thePass w2)) q)"
    by blast
  have ok': "TMap_ok (ComponentProxies_RenderThread (thePass w))
               \<longrightarrow> TMap_ok (ComponentProxies_RenderThread (thePass w'))"
    using ok same2(4) by (simp add: TMap_ok_Add)
  have look': "\<forall>q. TMap_Find (ComponentProxies_RenderThread (thePass w')) q =
                 (if q \<in> set (c # cs) then map_option renderThreadProxy (objects w q)
                  else TMap_Find (ComponentProxies_RenderThread (thePass w)) q)"
    using look same2 obj by (auto simp: TMap_Find_Add)
  from step r o same2 ok' look' show ?case by simp
qed

lemma rebuild_ComponentProxies_table:
  assumes "\<forall>c \<in> set cs. objects w c \<noteq> None"
  shows "\<exists>w'. rebuild_ComponentProxies cs w = Inr w' \<and>
          objects w' = objects w \<and>
          TMap_ok (ComponentProxies_RenderThread (thePass w')) \<and>
          (\<forall>q. TMap_Find (ComponentProxies_RenderThread (thePass w')) q =
                 (if q \<in> set cs then map_option renderThreadProxy (objects w q) else None))"
proof -
  let ?w0 = "w\<lparr> thePass := (thePass w)\<lparr> ComponentProxies_RenderThread := [] \<rparr> \<rparr>"
  have "\<forall>c \<in> set cs. objects ?w0 c \<noteq> None" using assms by simp
  from rebuild_loop_table [OF this] obtain w' where
    "rebuild_loop cs ?w0 = Inr w'" "objects w' = objects ?w0"
    "TMap_ok (ComponentProxies_RenderThread (thePass ?w0))
       \<longrightarrow> TMap_ok (ComponentProxies_RenderThread (thePass w'))"
    "\<forall>q. TMap_Find (ComponentProxies_RenderThread (thePass w')) q =
                 (if q \<in> set cs then map_option renderThreadProxy (objects ?w0 q)
                  else TMap_Find (ComponentProxies_RenderThread (thePass ?w0)) q)"
    by blast
  then show ?thesis
    by (simp add: rebuild_ComponentProxies_def TMap_ok_def TMap_Find_def)
qed

lemma Tick_GameThread_queue:
  "renderCommandQueue (Tick_GameThread scene deltaSeconds w) =
     renderCommandQueue w @
       [UpdateCustomRenderPassProxies
          (filter (IsValid (objects w)) (Components_GameThread (thePass w))) scene deltaSeconds]"
  by (simp add: Tick_GameThread_def Let_def)

lemma UnregisterPassComponent_removes:
  "\<exists>w1. UnregisterPassComponent True c w = Inr w1 \<and>
        c \<notin> set (Components_GameThread (thePass w1)) \<and>
        (\<forall>q. q \<noteq> c \<longrightarrow> (q \<in> set (Components_GameThread (thePass w1)))
                          = (q \<in> set (Components_GameThread (thePass w)))) \<and>
        objects w1 = objects w"
  by (simp add: UnregisterPassComponent_def TSet_Remove_def)

text \<open>
  C5. A tick of a pass appends one command to the render queue, which carries the
  registered components that are valid at that moment. Run on the render thread, in a
  state where those components still exist, the command hands to the hook a state whose
  proxy table has no key twice and maps exactly the components of the snapshot, each to
  the proxy bytes it has published by then; the command's result is what the hook returns
  for that state. A component unregistered before the tick is not in the snapshot.
\<close>

theorem Tick_GameThread_rebuilds_then_hooks:
  "renderCommandQueue (Tick_GameThread scene deltaSeconds w) =
     renderCommandQueue w @
       [UpdateCustomRenderPassProxies
          (filter (IsValid (objects w)) (Components_GameThread (thePass w))) scene deltaSeconds] \<and>
   ((\<forall>c \<in> set (Components_GameThread (thePass w)). IsValid (objects w) c \<longrightarrow> objects wr c \<noteq> None) \<longrightarrow>
      (\<exists>wr'. run_pass_command hook
               (UpdateCustomRenderPassProxies
                  (filter (IsValid (objects w)) (Components_GameThread (thePass w))) scene deltaSeconds)
               wr = Inr (hook scene deltaSeconds wr') \<and>
             TMap_ok (ComponentProxies_RenderThread (thePass wr')) \<and>
             (\<forall>c. TMap_Find (ComponentProxies_RenderThread (thePass wr')) c =
                    (if c \<in> set (Components_GameThread (thePass w)) \<and> IsValid (objects w) c
                     then map_option renderThreadProxy (objects wr c) else None)))) \<and>
   (\<exists>w1. UnregisterPassComponent True gone w = Inr w1 \<and>
         gone \<notin> set (filter (IsValid (objects w1)) (Components_GameThread (thePass w1))))"
proof (intro conjI impI)
  show "renderCommandQueue (Tick_GameThread scene deltaSeconds w) =
     renderCommandQueue w @
       [UpdateCustomRenderPassProxies
          (filter (IsValid (objects w)) (Components_GameThread (thePass w))) scene deltaSeconds]"
    by (rule Tick_GameThread_queue)
next
  let ?cs = "filter (IsValid (objects w)) (Components_GameThread (thePass w))"
  assume "\<forall>c \<in> set (Components_GameThread (thePass w)). IsValid (objects w) c \<longrightarrow> objects wr c \<noteq> None"
  then have "\<forall>c \<in> set ?cs. objects wr c \<noteq> None" by simp
  from rebuild_ComponentProxies_table [OF this] obtain wr' where
    r: "rebuild_ComponentProxies ?cs wr = Inr wr'"
    and ok: "TMap_ok (ComponentProxies_RenderThread (thePass wr'))"
    and look: "\<forall>q. TMap_Find (ComponentProxies_RenderThread (thePass wr')) q =
                 (if q \<in> set ?cs then map_option renderThreadProxy (objects wr q) else None)"
    by blast
  from r have "run_pass_command hook (UpdateCustomRenderPassProxies ?cs scene deltaSeconds) wr
                 = Inr (hook scene deltaSeconds wr')"
    by simp
  moreover from look
  have "\<forall>c. TMap_Find (ComponentProxies_RenderThread (thePass wr')) c =
                    (if c \<in> set (Components_GameThread (thePass w)) \<and> IsValid (objects w) c
                     then map_option renderThreadProxy (objects wr c) else None)"
    by simp
  ultimately show "\<exists>wr'. run_pass_command hook
               (UpdateCustomRenderPassProxies ?cs scene deltaSeconds) wr
                 = Inr (hook scene deltaSeconds wr') \<and>
             TMap_ok (ComponentProxies_RenderThread (thePass wr')) \<and>
             (\<forall>c. TMap_Find (ComponentProxies_RenderThread (thePass wr')) c =
                    (if c \<in> set (Components_GameThread (thePass w)) \<and> IsValid (objects w) c
                     then map_option renderThreadProxy (objects wr c) else None))"
    using ok by blast
next
  from UnregisterPassComponent_removes [of gone w]
  show "\<exists>w1. UnregisterPassComponent True gone w = Inr w1 \<and>
         gone \<notin> set (filter (IsValid (objects w1)) (Components_GameThread (thePass w1)))"
    by auto
qed

lemma example_pass_world_valid:
  "filter (IsValid (objects example_pass_world)) (Components_GameThread (thePass example_pass_world))
     = [11, 12]"
  by (simp add: example_pass_world_def IsValid_def example_component_def)

theorem Tick_GameThread_rebuilds_then_hooks_witness:
  "objects example_pass_world 11 \<noteq> None \<and> objects example_pass_world 12 \<noteq> None \<and>
   renderCommandQueue (Tick_GameThread 9 (16::nat) example_pass_world) =
     [UpdateCustomRenderPassProxies [11, 12] 9 16] \<and>
   (\<exists>wr'. run_pass_command Tick_RenderThread (UpdateCustomRenderPassProxies [11, 12] 9 (16::nat))
            example_pass_world = Inr wr' \<and>
          TMap_ok (ComponentProxies_RenderThread (thePass wr')) \<and>
          TMap_Find (ComponentProxies_RenderThread (thePass wr')) 11 = Some [10] \<and>
          TMap_Find (ComponentProxies_RenderThread (thePass wr')) 12 = Some [20] \<and>
          TMap_Find (ComponentProxies_RenderThread (thePass wr')) 13 = None) \<and>
   (\<exists>w1. UnregisterPassComponent True 12 example_pass_world = Inr w1 \<and>
         filter (IsValid (objects w1)) (Components_GameThread (thePass w1)) = [11])"
proof -
  have o: "objects example_pass_world 11 = Some (example_component 10)"
          "objects example_pass_world 12 = Some (example_component 20)"
          "objects example_pass_world 13 = Some (example_component 30)"
    by (simp_all add: example_pass_world_def)
  have c: "Components_GameThread (thePass example_pass_world) = [11, 12]"
          "renderCommandQueue example_pass_world = []"
    by (simp_all add: example_pass_world_def)
  have v: "IsValid (objects example_pass_world) 11" "IsValid (objects example_pass_world) 12"
    by (simp_all add: IsValid_def example_pass_world_def example_component_def)
  note t = Tick_GameThread_rebuilds_then_hooks
             [of 9 "16::nat" example_pass_world example_pass_world Tick_RenderThread 12]
  note t' = t [unfolded example_pass_world_valid]
  from t' [THEN conjunct1]
  have q: "renderCommandQueue (Tick_GameThread 9 (16::nat) example_pass_world) =
     [UpdateCustomRenderPassProxies [11, 12] 9 16]"
    by (simp add: c)
  have hyp: "\<forall>c \<in> set (Components_GameThread (thePass example_pass_world)).
               IsValid (objects example_pass_world) c \<longrightarrow> objects example_pass_world c \<noteq> None"
    by (simp add: c o)
  from t' [THEN conjunct2, THEN conjunct1, THEN mp, OF hyp] obtain wr' where
    r: "run_pass_command Tick_RenderThread (UpdateCustomRenderPassProxies [11, 12] 9 (16::nat))
            example_pass_world = Inr (Tick_RenderThread 9 16 wr')"
    and ok: "TMap_ok (ComponentProxies_RenderThread (thePass wr'))"
    and look: "\<forall>c. TMap_Find (ComponentProxies_RenderThread (thePass wr')) c =
                    (if c \<in> set (Components_GameThread (thePass example_pass_world)) \<and>
                        IsValid (objects example_pass_world) c
                     then map_option renderThreadProxy (objects example_pass_world c) else None)"
    by blast
  from look o c v
  have l: "TMap_Find (ComponentProxies_RenderThread (thePass wr')) 11 = Some [10]"
          "TMap_Find (ComponentProxies_RenderThread (thePass wr')) 12 = Some [20]"
          "TMap_Find (ComponentProxies_RenderThread (thePass wr')) 13 = None"
    by (simp_all add: example_component_def)
  have u: "\<exists>w1. UnregisterPassComponent True 12 example_pass_world = Inr w1 \<and>
         filter (IsValid (objects w1)) (Components_GameThread (thePass w1)) = [11]"
    by (simp add: UnregisterPassComponent_def TSet_Remove_def example_pass_world_def
                  IsValid_def example_component_def)
  from r ok l have "\<exists>wr'. run_pass_command Tick_RenderThread
            (UpdateCustomRenderPassProxies [11, 12] 9 (16::nat)) example_pass_world = Inr wr' \<and>
          TMap_ok (ComponentProxies_RenderThread (thePass wr')) \<and>
          TMap_Find (ComponentProxies_RenderThread (thePass wr')) 11 = Some [10] \<and>
          TMap_Find (ComponentProxies_RenderThread (thePass wr')) 12 = Some [20] \<and>
          TMap_Find (ComponentProxies_RenderThread (thePass wr')) 13 = None"
    by (simp add: Tick_RenderThread_def)
  with o q u show ?thesis by simp
qed

text \<open>
  The scenario of the specification, run through the render queue: with components 11
  and 12 registered and 13 not, a tick and the render thread's turn leave the table with
  exactly 11 and 12; after component 12 unregisters, the next tick leaves exactly 11.
\<close>

lemma end_to_end_scenario:
  "map_sum id (\<lambda>w. ComponentProxies_RenderThread (thePass w))
     (flush_render_commands Tick_RenderThread (Tick_GameThread 9 (16::nat) example_pass_world))
     = Inr [(11, [10]), (12, [20])] \<and>
   map_sum id (\<lambda>w. ComponentProxies_RenderThread (thePass w))
     (case flush_render_commands Tick_RenderThread (Tick_GameThread 9 (16::nat) example_pass_world) of
        Inl e \<Rightarrow> Inl e
      | Inr w1 \<Rightarrow>
          (case UnregisterPassComponent True 12 w1 of
             Inl e \<Rightarrow> Inl e
           | Inr w2 \<Rightarrow> flush_render_commands Tick_RenderThread (Tick_GameThread 9 17 w2)))
     = Inr [(11, [10])]"
  by (simp add: flush_render_commands_def Tick_GameThread_def Let_def example_pass_world_def
                IsValid_def example_component_def rebuild_ComponentProxies_def
                MaxInlineProxyByteSize_def StackCount_def TMap_Add_def Tick_RenderThread_def
                UnregisterPassComponent_def TSet_Remove_def)

text \<open>
  The proxy in the table is the last one published before the command runs: component 11
  publishes twice, and the tick that follows picks up the second proxy.
\<close>

lemma latest_proxy_scenario:
  "map_sum id (\<lambda>w. ComponentProxies_RenderThread (thePass w))
     (case TickComponent (\<lambda>obj. [77]) 11 example_pass_world of
        Inl e \<Rightarrow> Inl e
      | Inr w1 \<Rightarrow>
          (case TickComponent (\<lambda>obj. [78]) 11 w1 of
             Inl e \<Rightarrow> Inl e
           | Inr w2 \<Rightarrow> flush_render_commands Tick_RenderThread (Tick_GameThread 9 (16::nat) w2)))
     = Inr [(11, [78]), (12, [20])]"
  by (simp add: TickComponent_def flush_render_commands_def Tick_GameThread_def Let_def
                example_pass_world_def IsValid_def example_component_def
                rebuild_ComponentProxies_def MaxInlineProxyByteSize_def StackCount_def
                TMap_Add_def Tick_RenderThread_def)

lemma IsValid_set_EnabledInCustomPass:
  "IsValid (objects (set_EnabledInCustomPass enabled w)) = IsValid (objects w)"
  by (rule ext) (simp add: IsValid_def set_EnabledInCustomPass_def split: option.splits)

lemma Tick_GameThread_set_EnabledInCustomPass:
  "Tick_GameThread scene deltaSeconds (set_EnabledInCustomPass enabled w) =
     set_EnabledInCustomPass enabled (Tick_GameThread scene deltaSeconds w)"
proof -
  have f: "filter (IsValid (objects (set_EnabledInCustomPass enabled w)))
             (Components_GameThread (thePass (set_EnabledInCustomPass enabled w)))
           = filter (IsValid (objects w)) (Components_GameThread (thePass w))"
    by (simp add: IsValid_set_EnabledInCustomPass) (simp add: set_EnabledInCustomPass_def)
  show ?thesis
    unfolding Tick_GameThread_def f
    by (simp add: Let_def set_EnabledInCustomPass_def)
qed

lemma set_EnabledInCustomPass_fields:
  "thePass (set_EnabledInCustomPass enabled w) = thePass w"
  "passLog (set_EnabledInCustomPass enabled w) = passLog w"
  "renderCommandQueue (set_EnabledInCustomPass enabled w) = renderCommandQueue w"
  "objects (set_EnabledInCustomPass enabled w) c
     = map_option (\<lambda>obj. obj\<lparr> EnabledInCustomPass := enabled c \<rparr>) (objects w c)"
  by (simp_all add: set_EnabledInCustomPass_def)

lemma set_EnabledInCustomPass_updates:
  "set_EnabledInCustomPass enabled (w\<lparr> thePass := p \<rparr>)
     = (set_EnabledInCustomPass enabled w)\<lparr> thePass := p \<rparr>"
  "set_EnabledInCustomPass enabled (w\<lparr> passLog := l \<rparr>)
     = (set_EnabledInCustomPass enabled w)\<lparr> passLog := l \<rparr>"
  by (cases w; simp add: set_EnabledInCustomPass_def)+

lemma rebuild_loop_set_EnabledInCustomPass:
  "rebuild_loop cs (set_EnabledInCustomPass enabled w) =
     map_sum id (set_EnabledInCustomPass enabled) (rebuild_loop cs w)"
proof (induction cs arbitrary: w)
  case Nil
  show ?case by simp
next
  case (Cons c cs)
  show ?case
  proof (cases "objects w c")
    case None
    then show ?thesis by (simp add: set_EnabledInCustomPass_fields)
  next
    case (Some obj)
    define w1 where "w1 =
       (if \<not> warnedAboutProxyHeapUsage (thePass w) \<and> length (renderThreadProxy obj) > MaxInlineProxyByteSize
        then w\<lparr> passLog := passLog w @ [Log_ProxyHeapUsage (length (renderThreadProxy obj))],
                thePass := (thePass w)\<lparr> warnedAboutProxyHeapUsage := True \<rparr> \<rparr>
        else w)"
    define w2 where "w2 =
       w1\<lparr> thePass := (thePass w1)\<lparr> ComponentProxies_RenderThread :=
                       TMap_Add c (renderThreadProxy obj) (ComponentProxies_RenderThread (thePass w1)) \<rparr> \<rparr>"
    have a: "rebuild_loop (c # cs) w = rebuild_loop cs w2"
      using Some by (simp add: w1_def w2_def Let_def)
    have b: "rebuild_loop (c # cs) (set_EnabledInCustomPass enabled w)
               = rebuild_loop cs (set_EnabledInCustomPass enabled w2)"
      using Some
      by (simp add: w1_def w2_def Let_def set_EnabledInCustomPass_fields
                    set_EnabledInCustomPass_updates)
    show ?thesis unfolding a b by (rule Cons.IH)
  qed
qed

lemma rebuild_ComponentProxies_set_EnabledInCustomPass:
  "rebuild_ComponentProxies cs (set_EnabledInCustomPass enabled w) =
     map_sum id (set_EnabledInCustomPass enabled) (rebuild_ComponentProxies cs w)"
proof -
  have "(set_EnabledInCustomPass enabled w)
          \<lparr> thePass := (thePass (set_EnabledInCustomPass enabled w))\<lparr> ComponentProxies_RenderThread := [] \<rparr> \<rparr>
        = set_EnabledInCustomPass enabled
            (w\<lparr> thePass := (thePass w)\<lparr> ComponentProxies_RenderThread := [] \<rparr> \<rparr>)"
    by (simp add: set_EnabledInCustomPass_def)
  then show ?thesis
    by (simp add: rebuild_ComponentProxies_def rebuild_loop_set_EnabledInCustomPass)
qed

text \<open>
  C10. Changing the flags \<^verbatim>\<open>EnabledInCustomPass\<close> of the components, in any way, changes
  neither the command a tick enqueues nor the proxy table the command rebuilds: the tick
  and the rebuild commute with the change of flags, so a registered, valid component
  whose flag is false is in the table all the same.
\<close>

theorem EnabledInCustomPass_never_read:
  "Tick_GameThread scene deltaSeconds (set_EnabledInCustomPass enabled w) =
     set_EnabledInCustomPass enabled (Tick_GameThread scene deltaSeconds w) \<and>
   renderCommandQueue (Tick_GameThread scene deltaSeconds (set_EnabledInCustomPass enabled w)) =
     renderCommandQueue (Tick_GameThread scene deltaSeconds w) \<and>
   rebuild_ComponentProxies components (set_EnabledInCustomPass enabled wr) =
     map_sum id (set_EnabledInCustomPass enabled) (rebuild_ComponentProxies components wr) \<and>
   map_sum id (\<lambda>x. ComponentProxies_RenderThread (thePass x))
       (rebuild_ComponentProxies components (set_EnabledInCustomPass enabled wr)) =
     map_sum id (\<lambda>x. ComponentProxies_RenderThread (thePass x))
       (rebuild_ComponentProxies components wr)"
proof (intro conjI)
  show "Tick_GameThread scene deltaSeconds (set_EnabledInCustomPass enabled w) =
     set_EnabledInCustomPass enabled (Tick_GameThread scene deltaSeconds w)"
    by (rule Tick_GameThread_set_EnabledInCustomPass)
  then show "renderCommandQueue (Tick_GameThread scene deltaSeconds (set_EnabledInCustomPass enabled w)) =
     renderCommandQueue (Tick_GameThread scene deltaSeconds w)"
    by (simp add: set_EnabledInCustomPass_def)
  show "rebuild_ComponentProxies components (set_EnabledInCustomPass enabled wr) =
     map_sum id (set_EnabledInCustomPass enabled) (rebuild_ComponentProxies components wr)"
    by (rule rebuild_ComponentProxies_set_EnabledInCustomPass)
  then show "map_sum id (\<lambda>x. ComponentProxies_RenderThread (thePass x))
       (rebuild_ComponentProxies components (set_EnabledInCustomPass enabled wr)) =
     map_sum id (\<lambda>x. ComponentProxies_RenderThread (thePass x))
       (rebuild_ComponentProxies components wr)"
    by (cases "rebuild_ComponentProxies components wr")
       (simp_all add: set_EnabledInCustomPass_def)
qed

section \<open>Verification: destruction of passes\<close>

lemma DestroyPass_internal_while_dying:
  "isCurrentlyDying w \<Longrightarrow>
     \<exists>existed. DestroyPass_Impl_GameThread True type False w = Inr (w, existed)"
  by (cases "TMap_Find (passes w) type") (auto simp: DestroyPass_Impl_GameThread_def)

lemma BeginDestroy_loop_changes_nothing:
  "isCurrentlyDying w \<Longrightarrow> \<forall>entry \<in> set entries. passObjects w (snd entry) \<noteq> None \<Longrightarrow>
     BeginDestroy_loop True entries w = Inr w"
proof (induction entries)
  case Nil
  show ?case by simp
next
  case (Cons entry entries)
  from Cons.prems(2) obtain obj where obj: "passObjects w (snd entry) = Some obj" by auto
  from DestroyPass_internal_while_dying [OF Cons.prems(1), of "ObjectClass obj"]
  obtain existed where
    "DestroyPass_Impl_GameThread True (ObjectClass obj) False w = Inr (w, existed)" by blast
  with obj Cons show ?case by simp
qed

text \<open>
  What \<^verbatim>\<open>BeginDestroy\<close> does, for any subsystem whose passes exist: it sets the flag and
  empties the map. The queue of render commands and the fences are as they were.
\<close>

lemma BeginDestroy_effect:
  assumes "\<forall>entry \<in> set (passes w). passObjects w (snd entry) \<noteq> None"
  shows "BeginDestroy True w = Inr (w\<lparr> isCurrentlyDying := True, passes := [] \<rparr>)"
proof -
  let ?w1 = "w\<lparr> isCurrentlyDying := True \<rparr>"
  have "BeginDestroy_loop True (passes ?w1) ?w1 = Inr ?w1"
    by (rule BeginDestroy_loop_changes_nothing) (use assms in simp_all)
  then show ?thesis by (simp add: BeginDestroy_def Let_def)
qed

text \<open>
  C1 fails on the code. \<^verbatim>\<open>BeginDestroy\<close> sets \<^verbatim>\<open>isCurrentlyDying\<close> and then calls the
  internal destroy with \<^verbatim>\<open>isExternalCall = false\<close>, which under that flag returns before
  the fence is made. For the subsystem with two passes: no command is enqueued, no fence
  is stored, and \<^verbatim>\<open>IsReadyForFinishDestroy\<close> is true at once, while the pass objects have
  not been cleaned up. The external call, in normal operation, does enqueue the cleanup
  and begin a fence.
\<close>

theorem BeginDestroy_enqueues_no_cleanup:
  "BeginDestroy True example_subsystem
     = Inr (example_subsystem\<lparr> isCurrentlyDying := True, passes := [] \<rparr>) \<and>
   renderQueue (example_subsystem\<lparr> isCurrentlyDying := True, passes := [] \<rparr>) = [] \<and>
   dyingPassFences (example_subsystem\<lparr> isCurrentlyDying := True, passes := [] \<rparr>) = [] \<and>
   IsReadyForFinishDestroy (example_subsystem\<lparr> isCurrentlyDying := True, passes := [] \<rparr>) \<and>
   map_sum id (\<lambda>r. (renderQueue (fst r), dyingPassFences (fst r)))
       (DestroyPass_GameThread True 21 example_subsystem)
     = Inr ([CleanupPass 101 True, FenceCommand 200], [(101, 200)])"
proof -
  have "\<forall>entry \<in> set (passes example_subsystem). passObjects example_subsystem (snd entry) \<noteq> None"
    by (simp add: example_subsystem_def)
  from BeginDestroy_effect [OF this]
  have "BeginDestroy True example_subsystem
          = Inr (example_subsystem\<lparr> isCurrentlyDying := True, passes := [] \<rparr>)" .
  moreover have "map_sum id (\<lambda>r. (renderQueue (fst r), dyingPassFences (fst r)))
       (DestroyPass_GameThread True 21 example_subsystem)
     = Inr ([CleanupPass 101 True, FenceCommand 200], [(101, 200)])"
    by (simp add: DestroyPass_GameThread_def DestroyPass_Impl_GameThread_def fenced_cleanup_def
                  example_subsystem_def TMap_Find_def TMap_Add_def TMap_Remove_def BeginFence_def
                  Let_def)
  ultimately show ?thesis
    by (simp add: example_subsystem_def IsReadyForFinishDestroy_def)
qed

lemma TMap_Add_member: "(k, v) \<in> set (TMap_Add k v m)"
proof -
  have "map_of (AList.update k v m) k = Some v" by (simp add: update_conv')
  then show ?thesis unfolding TMap_Add_def by (rule map_of_SomeD)
qed

lemma IsReadyForFinishDestroy_iff:
  "IsReadyForFinishDestroy w =
     (\<forall>kvp \<in> set (dyingPassFences w). IsFenceComplete w (snd kvp))"
  by (simp add: IsReadyForFinishDestroy_def list_all_iff)

text \<open>The external destroy call in normal operation, field by field.\<close>

lemma DestroyPass_GameThread_normal:
  assumes "\<not> isCurrentlyDying w" and "hasWorld w" and "TMap_Find (passes w) type = Some pass"
  shows "\<exists>w'. DestroyPass_GameThread True type w = Inr (w', True) \<and>
           passes w' = TMap_Remove type (passes w) \<and>
           dyingPassFences w' = TMap_Add pass (nextObject w) (dyingPassFences w) \<and>
           renderQueue w' = renderQueue w @ [CleanupPass pass True, FenceCommand (nextObject w)] \<and>
           passObjects w' = passObjects w \<and>
           isCurrentlyDying w' = isCurrentlyDying w \<and>
           hasWorld w'"
  using assms
  by (simp add: DestroyPass_GameThread_def DestroyPass_Impl_GameThread_def fenced_cleanup_def
                BeginFence_def Let_def)

lemma run_subsystem_command_alive:
  assumes "case command_pass cmd of None \<Rightarrow> True | Some pass \<Rightarrow> passObjects w pass \<noteq> None"
  shows "\<exists>w'. run_subsystem_command cmd w = Inr w' \<and>
           renderQueue w' = renderQueue w \<and> passes w' = passes w \<and>
           dyingPassFences w' = dyingPassFences w \<and> hasWorld w' = hasWorld w \<and>
           (\<forall>q. passObjects w q \<noteq> None \<longrightarrow> passObjects w' q \<noteq> None)"
  using assms by (cases cmd) auto

lemma render_thread_steps_drop:
  "queued_passes_alive w \<Longrightarrow> n \<le> length (renderQueue w) \<Longrightarrow>
     \<exists>w'. render_thread_steps n w = Inr w' \<and>
          renderQueue w' = drop n (renderQueue w) \<and> passes w' = passes w \<and>
          dyingPassFences w' = dyingPassFences w \<and> hasWorld w' = hasWorld w"
proof (induction n arbitrary: w)
  case 0
  then show ?case by simp
next
  case (Suc n)
  from Suc.prems(2) obtain cmd rest where q: "renderQueue w = cmd # rest"
    by (cases "renderQueue w") auto
  let ?w0 = "w\<lparr> renderQueue := rest \<rparr>"
  from Suc.prems(1) q
  have alive: "case command_pass cmd of None \<Rightarrow> True | Some pass \<Rightarrow> passObjects ?w0 pass \<noteq> None"
    and rest_alive: "list_all (\<lambda>c. case command_pass c of None \<Rightarrow> True
                                   | Some pass \<Rightarrow> passObjects w pass \<noteq> None) rest"
    by (auto simp: queued_passes_alive_def split: option.splits)
  from run_subsystem_command_alive [OF alive] obtain w1 where
    r: "run_subsystem_command cmd ?w0 = Inr w1"
    and q1: "renderQueue w1 = rest" and p1: "passes w1 = passes w"
    and d1: "dyingPassFences w1 = dyingPassFences w" and h1: "hasWorld w1 = hasWorld w"
    and o1: "\<forall>x. passObjects w x \<noteq> None \<longrightarrow> passObjects w1 x \<noteq> None"
    by auto
  have a1: "queued_passes_alive w1"
    unfolding queued_passes_alive_def q1 using rest_alive o1
    by (auto simp: list_all_iff split: option.splits)
  have "n \<le> length (renderQueue w1)" using Suc.prems(2) q q1 by simp
  from Suc.IH [OF a1 this] obtain w' where
    "render_thread_steps n w1 = Inr w'" "renderQueue w' = drop n (renderQueue w1)"
    "passes w' = passes w1" "dyingPassFences w' = dyingPassFences w1" "hasWorld w' = hasWorld w1"
    by blast
  with r q q1 p1 d1 h1 show ?case by (simp add: render_thread_step_def)
qed

lemma render_thread_steps_idle:
  "renderQueue w = [] \<Longrightarrow> render_thread_steps n w = Inr w"
  by (induction n) (simp_all add: render_thread_step_def)

lemma render_thread_steps_add:
  "render_thread_steps (a + b) w =
     (case render_thread_steps a w of Inl e \<Rightarrow> Inl e | Inr w' \<Rightarrow> render_thread_steps b w')"
  by (induction a arbitrary: w) (auto split: sum.splits)

text \<open>Past the end of the queue the render thread has nothing left to run.\<close>

lemma render_thread_steps_drained:
  assumes "queued_passes_alive w" and "length (renderQueue w) \<le> n"
  shows "\<exists>w'. render_thread_steps n w = Inr w' \<and>
          renderQueue w' = [] \<and> passes w' = passes w \<and>
          dyingPassFences w' = dyingPassFences w \<and> hasWorld w' = hasWorld w"
proof -
  from assms(2) obtain r where n: "n = length (renderQueue w) + r"
    by (auto simp: le_iff_add)
  from render_thread_steps_drop [OF assms(1), of "length (renderQueue w)"] obtain w1 where
    a: "render_thread_steps (length (renderQueue w)) w = Inr w1"
    and b: "renderQueue w1 = []" "passes w1 = passes w"
           "dyingPassFences w1 = dyingPassFences w" "hasWorld w1 = hasWorld w"
    by auto
  have "render_thread_steps n w = Inr w1"
    unfolding n render_thread_steps_add using a render_thread_steps_idle [OF b(1)] by simp
  with b show ?thesis by simp
qed

lemma last_in_drop: "n < length xs \<Longrightarrow> last xs \<in> set (drop n xs)"
proof -
  assume "n < length xs"
  then have "drop n xs \<noteq> []" by simp
  then have "last (drop n xs) \<in> set (drop n xs)" by (rule last_in_set)
  with \<open>n < length xs\<close> show ?thesis by (simp add: last_drop)
qed

text \<open>
  C3. In every state, \<^verbatim>\<open>IsReadyForFinishDestroy\<close> is true exactly when every fence in
  \<^verbatim>\<open>dyingPassFences\<close>, whichever pass it belongs to, is complete. An external destroy call
  in normal operation for a type that has a pass returns true, after which a lookup
  without creation finds nothing; the queue has gained the cleanup of the pass and then
  the fence's command; the new fence is stored under the pass and the fences of other
  passes are kept. The predicate is false after the call and after each number of
  render-thread steps that leaves a command in the queue, and true once the render thread
  has run the queue to its end; the lookup keeps finding nothing throughout.
\<close>

theorem DestroyPass_GameThread_fenced:
  assumes "\<not> isCurrentlyDying w" and "hasWorld w"
    and "TMap_Find (passes w) type = Some pass"
    and "queued_passes_alive w" and "passObjects w pass \<noteq> None"
  shows
  "IsReadyForFinishDestroy x =
     (\<forall>kvp \<in> set (dyingPassFences x). IsFenceComplete x (snd kvp)) \<and>
   (\<exists>w'. DestroyPass_GameThread True type w = Inr (w', True) \<and>
      GetPass True type False w' = Inr (w', None) \<and>
      renderQueue w' = renderQueue w @ [CleanupPass pass True, FenceCommand (nextObject w)] \<and>
      TMap_Find (dyingPassFences w') pass = Some (nextObject w) \<and>
      (\<forall>q. q \<noteq> pass \<longrightarrow>
            TMap_Find (dyingPassFences w') q = TMap_Find (dyingPassFences w) q) \<and>
      \<not> IsFenceComplete w' (nextObject w) \<and>
      (\<forall>n. n < length (renderQueue w') \<longrightarrow>
         (\<exists>wn. render_thread_steps n w' = Inr wn \<and> \<not> IsReadyForFinishDestroy wn \<and>
               GetPass True type False wn = Inr (wn, None))) \<and>
      (\<forall>n. length (renderQueue w') \<le> n \<longrightarrow>
         (\<exists>wn. render_thread_steps n w' = Inr wn \<and> IsReadyForFinishDestroy wn \<and>
               GetPass True type False wn = Inr (wn, None))))"
proof (rule conjI)
  show "IsReadyForFinishDestroy x =
     (\<forall>kvp \<in> set (dyingPassFences x). IsFenceComplete x (snd kvp))"
    by (rule IsReadyForFinishDestroy_iff)
next
  let ?f = "nextObject w"
  from DestroyPass_GameThread_normal [OF assms(1,2,3)] obtain w' where
    d: "DestroyPass_GameThread True type w = Inr (w', True)"
    and p: "passes w' = TMap_Remove type (passes w)"
    and f: "dyingPassFences w' = TMap_Add pass ?f (dyingPassFences w)"
    and q: "renderQueue w' = renderQueue w @ [CleanupPass pass True, FenceCommand ?f]"
    and o: "passObjects w' = passObjects w"
    and h: "hasWorld w'"
    by blast
  have gone: "TMap_Find (passes w') type = None" by (simp add: p TMap_Find_Remove)
  have g: "GetPass True type False w' = Inr (w', None)"
    using gone h by (simp add: GetPass_def)
  have stored: "TMap_Find (dyingPassFences w') pass = Some ?f"
    and kept: "\<forall>k. k \<noteq> pass \<longrightarrow>
                  TMap_Find (dyingPassFences w') k = TMap_Find (dyingPassFences w) k"
    by (simp_all add: f TMap_Find_Add)
  have member: "(pass, ?f) \<in> set (dyingPassFences w')"
    unfolding f by (rule TMap_Add_member)
  have incomplete: "\<not> IsFenceComplete w' ?f" by (simp add: IsFenceComplete_def q)
  have alive: "queued_passes_alive w'"
    using assms(4,5) unfolding queued_passes_alive_def q o by auto
  have before: "\<exists>wn. render_thread_steps n w' = Inr wn \<and> \<not> IsReadyForFinishDestroy wn \<and>
                  GetPass True type False wn = Inr (wn, None)"
    if n: "n < length (renderQueue w')" for n
  proof -
    from n have "n \<le> length (renderQueue w')" by simp
    from render_thread_steps_drop [OF alive this] obtain wn where
      r: "render_thread_steps n w' = Inr wn"
      and qn: "renderQueue wn = drop n (renderQueue w')"
      and pn: "passes wn = passes w'" and fn: "dyingPassFences wn = dyingPassFences w'"
      and hn: "hasWorld wn = hasWorld w'"
      by blast
    have "last (renderQueue w') = FenceCommand ?f" by (simp add: q)
    with last_in_drop [OF n] have "FenceCommand ?f \<in> set (renderQueue wn)" by (simp add: qn)
    then have "\<not> IsFenceComplete wn ?f" by (simp add: IsFenceComplete_def)
    with member have "\<not> IsReadyForFinishDestroy wn"
      unfolding IsReadyForFinishDestroy_iff fn by force
    moreover have "GetPass True type False wn = Inr (wn, None)"
      using gone h by (simp add: GetPass_def pn hn)
    ultimately show ?thesis using r by blast
  qed
  have after: "\<exists>wn. render_thread_steps n w' = Inr wn \<and> IsReadyForFinishDestroy wn \<and>
                  GetPass True type False wn = Inr (wn, None)"
    if n: "length (renderQueue w') \<le> n" for n
  proof -
    from render_thread_steps_drained [OF alive n] obtain wn where
      r: "render_thread_steps n w' = Inr wn"
      and qn: "renderQueue wn = []"
      and pn: "passes wn = passes w'" and hn: "hasWorld wn = hasWorld w'"
      by blast
    have "IsReadyForFinishDestroy wn"
      by (simp add: IsReadyForFinishDestroy_iff IsFenceComplete_def qn)
    moreover have "GetPass True type False wn = Inr (wn, None)"
      using gone h by (simp add: GetPass_def pn hn)
    ultimately show ?thesis using r by blast
  qed
  from d g q stored kept incomplete before after
  show "\<exists>w'. DestroyPass_GameThread True type w = Inr (w', True) \<and>
      GetPass True type False w' = Inr (w', None) \<and>
      renderQueue w' = renderQueue w @ [CleanupPass pass True, FenceCommand (nextObject w)] \<and>
      TMap_Find (dyingPassFences w') pass = Some (nextObject w) \<and>
      (\<forall>q. q \<noteq> pass \<longrightarrow>
            TMap_Find (dyingPassFences w') q = TMap_Find (dyingPassFences w) q) \<and>
      \<not> IsFenceComplete w' (nextObject w) \<and>
      (\<forall>n. n < length (renderQueue w') \<longrightarrow>
         (\<exists>wn. render_thread_steps n w' = Inr wn \<and> \<not> IsReadyForFinishDestroy wn \<and>
               GetPass True type False wn = Inr (wn, None))) \<and>
      (\<forall>n. length (renderQueue w') \<le> n \<longrightarrow>
         (\<exists>wn. render_thread_steps n w' = Inr wn \<and> IsReadyForFinishDestroy wn \<and>
               GetPass True type False wn = Inr (wn, None)))"
    by blast
qed

lemma example_subsystem_one_dying_reached:
  "DestroyPass_GameThread True 22 example_subsystem = Inr (example_subsystem_one_dying, True)"
  by (simp add: DestroyPass_GameThread_def DestroyPass_Impl_GameThread_def fenced_cleanup_def
                example_subsystem_def example_subsystem_one_dying_def TMap_Find_def TMap_Add_def
                TMap_Remove_def BeginFence_def Let_def AList.delete_eq)

theorem DestroyPass_GameThread_fenced_witness:
  "\<not> isCurrentlyDying example_subsystem_one_dying \<and>
   hasWorld example_subsystem_one_dying \<and>
   TMap_Find (passes example_subsystem_one_dying) 21 = Some 101 \<and>
   queued_passes_alive example_subsystem_one_dying \<and>
   passObjects example_subsystem_one_dying 101 \<noteq> None \<and>
   (\<exists>w'. DestroyPass_GameThread True 21 example_subsystem_one_dying = Inr (w', True) \<and>
      GetPass True 21 False w' = Inr (w', None) \<and>
      renderQueue w' = [CleanupPass 102 True, FenceCommand 200,
                        CleanupPass 101 True, FenceCommand 201] \<and>
      TMap_Find (dyingPassFences w') 101 = Some 201 \<and>
      TMap_Find (dyingPassFences w') 102 = Some 200 \<and>
      \<not> IsReadyForFinishDestroy w' \<and>
      (\<exists>wn. render_thread_steps 2 w' = Inr wn \<and> \<not> IsReadyForFinishDestroy wn) \<and>
      (\<exists>wn. render_thread_steps 3 w' = Inr wn \<and> \<not> IsReadyForFinishDestroy wn) \<and>
      (\<exists>wn. render_thread_steps 4 w' = Inr wn \<and> IsReadyForFinishDestroy wn))"
proof -
  have h: "\<not> isCurrentlyDying example_subsystem_one_dying"
          "hasWorld example_subsystem_one_dying"
          "TMap_Find (passes example_subsystem_one_dying) 21 = Some 101"
          "queued_passes_alive example_subsystem_one_dying"
          "passObjects example_subsystem_one_dying 101 \<noteq> None"
    by (simp_all add: example_subsystem_one_dying_def TMap_Find_def queued_passes_alive_def)
  have e: "renderQueue example_subsystem_one_dying = [CleanupPass 102 True, FenceCommand 200]"
          "nextObject example_subsystem_one_dying = 201"
          "TMap_Find (dyingPassFences example_subsystem_one_dying) 102 = Some 200"
    by (simp_all add: example_subsystem_one_dying_def TMap_Find_def)
  from DestroyPass_GameThread_fenced [OF h, of example_subsystem_one_dying, THEN conjunct2]
  obtain w' where
    d: "DestroyPass_GameThread True 21 example_subsystem_one_dying = Inr (w', True)"
    and g: "GetPass True 21 False w' = Inr (w', None)"
    and q: "renderQueue w' = renderQueue example_subsystem_one_dying @
                               [CleanupPass 101 True, FenceCommand (nextObject example_subsystem_one_dying)]"
    and s: "TMap_Find (dyingPassFences w') 101 = Some (nextObject example_subsystem_one_dying)"
    and k: "\<forall>q. q \<noteq> 101 \<longrightarrow> TMap_Find (dyingPassFences w') q
                               = TMap_Find (dyingPassFences example_subsystem_one_dying) q"
    and b: "\<forall>n. n < length (renderQueue w') \<longrightarrow>
              (\<exists>wn. render_thread_steps n w' = Inr wn \<and> \<not> IsReadyForFinishDestroy wn \<and>
                    GetPass True 21 False wn = Inr (wn, None))"
    and a: "\<forall>n. length (renderQueue w') \<le> n \<longrightarrow>
              (\<exists>wn. render_thread_steps n w' = Inr wn \<and> IsReadyForFinishDestroy wn \<and>
                    GetPass True 21 False wn = Inr (wn, None))"
    by blast
  have len: "length (renderQueue w') = 4" by (simp add: q e)
  have q': "renderQueue w' = [CleanupPass 102 True, FenceCommand 200,
                              CleanupPass 101 True, FenceCommand 201]"
    by (simp add: q e)
  have s': "TMap_Find (dyingPassFences w') 101 = Some 201" by (simp add: s e)
  have "(0::nat) < length (renderQueue w')" by (simp add: len)
  from b [rule_format, OF this]
  have n0: "\<not> IsReadyForFinishDestroy w'" by simp
  have "(2::nat) < length (renderQueue w')" by (simp add: len)
  from b [rule_format, OF this]
  have b2: "\<exists>wn. render_thread_steps 2 w' = Inr wn \<and> \<not> IsReadyForFinishDestroy wn"
    by blast
  have "(3::nat) < length (renderQueue w')" by (simp add: len)
  from b [rule_format, OF this]
  have b3: "\<exists>wn. render_thread_steps 3 w' = Inr wn \<and> \<not> IsReadyForFinishDestroy wn"
    by blast
  have "length (renderQueue w') \<le> (4::nat)" by (simp add: len)
  from a [rule_format, OF this]
  have a4: "\<exists>wn. render_thread_steps 4 w' = Inr wn \<and> IsReadyForFinishDestroy wn"
    by blast
  from k e(3) have k2: "TMap_Find (dyingPassFences w') 102 = Some 200" by simp
  have "\<exists>w'. DestroyPass_GameThread True 21 example_subsystem_one_dying = Inr (w', True) \<and>
      GetPass True 21 False w' = Inr (w', None) \<and>
      renderQueue w' = [CleanupPass 102 True, FenceCommand 200,
                        CleanupPass 101 True, FenceCommand 201] \<and>
      TMap_Find (dyingPassFences w') 101 = Some 201 \<and>
      TMap_Find (dyingPassFences w') 102 = Some 200 \<and>
      \<not> IsReadyForFinishDestroy w' \<and>
      (\<exists>wn. render_thread_steps 2 w' = Inr wn \<and> \<not> IsReadyForFinishDestroy wn) \<and>
      (\<exists>wn. render_thread_steps 3 w' = Inr wn \<and> \<not> IsReadyForFinishDestroy wn) \<and>
      (\<exists>wn. render_thread_steps 4 w' = Inr wn \<and> IsReadyForFinishDestroy wn)"
    using d g q' s' k2 n0 b2 b3 a4 by blast
  with h show ?thesis by blast
qed

end
